theory Spec2Isabelle
  imports Complex_Main "HOL-Library.Log_Nat" "HOL-Library.Word"
begin

section \<open>NumPy floating-point scalars\<close>

text \<open>
  Both scripts compute with NumPy \<^verbatim>\<open>float64\<close> scalars. A value is either finite or one of
  the three IEEE-754 special values, which the code can really produce (\<^verbatim>\<open>np.log(0)\<close> is
  \<^verbatim>\<open>-inf\<close>, \<^verbatim>\<open>0 / 0\<close> on NumPy integers is \<^verbatim>\<open>nan\<close>). A finite value is the real number it
  denotes; the sign of a zero is not kept. The arithmetic of the percentages and of the
  filter rounds every result to binary64. The bin edges of the histogram and the logarithm
  are exact reals: what is proved of them below does not depend on their rounding.
\<close>

datatype npfloat = Fin real | PInf | NInf | NaN

subsection \<open>Rounding to binary64\<close>

text \<open>Rounding to the nearest integer, a tie going to the even neighbour.\<close>

definition rne :: "real \<Rightarrow> int" where
  "rne y =
     (let f = \<lfloor>y\<rfloor> in
      if y - of_int f < 1 / 2 then f
      else if 1 / 2 < y - of_int f then f + 1
      else if even f then f else f + 1)"

text \<open>
  The binary exponent of a positive real \<open>x\<close>: the integer \<open>e\<close> with \<open>2 powi e \<le> x < 2 powi (e + 1)\<close>,
  from the bit length of the integer part of \<open>x\<close> or of \<open>1 / x\<close>.
\<close>

definition binade :: "real \<Rightarrow> int" where
  "binade x = (if 1 \<le> x then bitlen \<lfloor>x\<rfloor> - 1 else - bitlen (\<lceil>1 / x\<rceil> - 1))"

text \<open>
  The binary64 value of a real result, in the default rounding mode (to nearest, ties to
  even): 53 significant bits, the exponent of the last bit no lower than \<open>-1074\<close> (below
  \<open>2 powi (-1022)\<close> the values are subnormal), and an infinity when the rounded value
  reaches \<open>2 powi 1024\<close>.
\<close>

definition round64 :: "real \<Rightarrow> npfloat" where
  "round64 x =
     (if x = 0 then Fin 0
      else let e = max (binade \<bar>x\<bar>) (- 1022) - 52;
               r = of_int (rne (\<bar>x\<bar> / 2 powi e)) * 2 powi e
           in if 2 powi 1024 \<le> r then (if 0 < x then PInf else NInf)
              else Fin (if 0 < x then r else - r))"

subsection \<open>Arithmetic\<close>

text \<open>
  Addition, multiplication and division of two \<^verbatim>\<open>float64\<close> values: the IEEE-754 special
  cases, and the exact result rounded otherwise. A zero divisor raises nothing: NumPy
  emits a warning, and the result is \<^verbatim>\<open>nan\<close> for \<^verbatim>\<open>0 / 0\<close> and an infinity otherwise.
\<close>

fun np_add :: "npfloat \<Rightarrow> npfloat \<Rightarrow> npfloat" where
  "np_add NaN _ = NaN"
| "np_add _ NaN = NaN"
| "np_add PInf NInf = NaN"
| "np_add NInf PInf = NaN"
| "np_add PInf _ = PInf"
| "np_add _ PInf = PInf"
| "np_add NInf _ = NInf"
| "np_add _ NInf = NInf"
| "np_add (Fin a) (Fin b) = round64 (a + b)"

fun np_mul :: "npfloat \<Rightarrow> npfloat \<Rightarrow> npfloat" where
  "np_mul NaN _ = NaN"
| "np_mul _ NaN = NaN"
| "np_mul (Fin a) (Fin b) = round64 (a * b)"
| "np_mul (Fin a) PInf = (if a = 0 then NaN else if 0 < a then PInf else NInf)"
| "np_mul (Fin a) NInf = (if a = 0 then NaN else if 0 < a then NInf else PInf)"
| "np_mul PInf (Fin b) = (if b = 0 then NaN else if 0 < b then PInf else NInf)"
| "np_mul NInf (Fin b) = (if b = 0 then NaN else if 0 < b then NInf else PInf)"
| "np_mul PInf PInf = PInf"
| "np_mul PInf NInf = NInf"
| "np_mul NInf PInf = NInf"
| "np_mul NInf NInf = PInf"

fun np_div :: "npfloat \<Rightarrow> npfloat \<Rightarrow> npfloat" where
  "np_div NaN _ = NaN"
| "np_div _ NaN = NaN"
| "np_div (Fin a) (Fin b) =
     (if b = 0 then (if a = 0 then NaN else if 0 < a then PInf else NInf)
      else round64 (a / b))"
| "np_div (Fin a) PInf = Fin 0"
| "np_div (Fin a) NInf = Fin 0"
| "np_div PInf (Fin b) = (if 0 \<le> b then PInf else NInf)"
| "np_div NInf (Fin b) = (if 0 \<le> b then NInf else PInf)"
| "np_div PInf PInf = NaN"
| "np_div PInf NInf = NaN"
| "np_div NInf PInf = NaN"
| "np_div NInf NInf = NaN"

text \<open>
  A NumPy \<^verbatim>\<open>int64\<close> is a 64-bit word read as a signed number. \<^verbatim>\<open>a / b\<close> on two of them
  (true division) converts both to \<^verbatim>\<open>float64\<close>, which rounds the large ones, and divides.
\<close>

type_synonym int64 = "64 word"

definition float_of_int64 :: "int64 \<Rightarrow> npfloat" where
  "float_of_int64 a = round64 (real_of_int (sint a))"

definition true_divide :: "int64 \<Rightarrow> int64 \<Rightarrow> npfloat" where
  "true_divide a b = np_div (float_of_int64 a) (float_of_int64 b)"

section \<open>Exceptions\<close>

text \<open>
  The exceptions that the two scripts can raise in the code modelled here:
  \<^item> pandas' \<^verbatim>\<open>TypeError\<close> (\<^verbatim>\<open>no numeric data to plot\<close>) for a chart of a table without
    rows;
  \<^item> Python's \<^verbatim>\<open>ZeroDivisionError\<close> for \<^verbatim>\<open>0 / 0\<close> on two Python integers;
  \<^item> the \<^verbatim>\<open>ValueError\<close> of the tuple unpacking on line 185 of \<^verbatim>\<open>heatmap.py\<close>
    (\<^verbatim>\<open>not enough values to unpack (expected 2, got 0)\<close>);
  \<^item> NumPy's \<^verbatim>\<open>ValueError\<close>s for arrays of different lengths and for a bin count below
    one in dimension \<open>i\<close>;
  \<^item> SciPy's \<^verbatim>\<open>RuntimeError\<close> for an unknown boundary mode.
\<close>

datatype error =
    NoNumericDataToPlot
  | ZeroDivisionError
  | NotEnoughValuesToUnpack
  | LengthMismatch
  | BinsNotPositive nat
  | BoundaryModeNotSupported

section \<open>techniques.py\<close>

subsection \<open>Tables\<close>

text \<open>
  One row of the input CSV as \<^verbatim>\<open>format_df\<close> reads it: the four columns selected on line 107.
  The technique columns are pandas \<^verbatim>\<open>int64\<close> columns, whose sums wrap around. The year is
  a label that is grouped, ordered and compared, never added to, so its width plays no
  part: it is an integer.
\<close>

record publication =
  Year :: int
  Image_Processing :: int64
  Machine_Learning :: int64
  Deep_Learning :: int64

text \<open>
  One row of the table after the renaming of line 108, without the \<^verbatim>\<open>Year\<close> column: the
  columns \<^verbatim>\<open>'Image Processing'\<close>, \<^verbatim>\<open>'Machine Learning'\<close> and \<^verbatim>\<open>'Deep Learning'\<close>.
\<close>

record techs =
  image_processing :: int64
  machine_learning :: int64
  deep_learning :: int64

text \<open>
  The aggregated table: a data frame indexed by year, as a list of (index, row) pairs in
  the order of the frame.
\<close>

type_synonym year_table = "(int \<times> techs) list"

definition techs_of :: "publication \<Rightarrow> techs" where
  "techs_of p = \<lparr>image_processing = Image_Processing p,
                 machine_learning = Machine_Learning p,
                 deep_learning = Deep_Learning p\<rparr>"

text \<open>The sum of two rows, column by column, in \<^verbatim>\<open>int64\<close>.\<close>

definition add_techs :: "techs \<Rightarrow> techs \<Rightarrow> techs" where
  "add_techs a b = \<lparr>image_processing = image_processing a + image_processing b,
                    machine_learning = machine_learning a + machine_learning b,
                    deep_learning = deep_learning a + deep_learning b\<rparr>"

subsection \<open>format\_df\<close>

text \<open>
  \<^verbatim>\<open>df_techs.groupby('Year').sum()\<close>: pandas walks the rows once, keeps one accumulator
  per group key and returns the groups ordered by key (\<^verbatim>\<open>sort=True\<close> is the default).
  \<open>group_add\<close> adds one row to the accumulator of its year, opening a new group at
  its place in the order when the year is new.
\<close>

fun group_add :: "int \<Rightarrow> techs \<Rightarrow> year_table \<Rightarrow> year_table" where
  "group_add y r [] = [(y, r)]"
| "group_add y r ((k, s) # t) =
     (if y = k then (k, add_techs s r) # t
      else if y < k then (y, r) # (k, s) # t
      else (k, s) # group_add y r t)"

definition groupby_sum :: "publication list \<Rightarrow> year_table" where
  "groupby_sum df = foldl (\<lambda>groups p. group_add (Year p) (techs_of p) groups) [] df"

definition format_df :: "publication list \<Rightarrow> year_table" where
  "format_df df = groupby_sum df"

subsection \<open>print\_stats\<close>

text \<open>\<^verbatim>\<open>df[df.index >= after_year_only]\<close>, applied only when a year is given (lines 153-154).\<close>

definition select_years :: "year_table \<Rightarrow> int option \<Rightarrow> year_table" where
  "select_years df after_year_only =
     (case after_year_only of
        None \<Rightarrow> df
      | Some y \<Rightarrow> filter (\<lambda>(k, r). y \<le> k) df)"

text \<open>
  \<^verbatim>\<open>df[col].sum()\<close> for a column, and \<^verbatim>\<open>df.sum().sum()\<close>: the sum of the three column sums.
  Both are \<^verbatim>\<open>int64\<close> sums.
\<close>

definition column_sum :: "(techs \<Rightarrow> int64) \<Rightarrow> year_table \<Rightarrow> int64" where
  "column_sum col df = sum_list (map (\<lambda>(k, r). col r) df)"

definition total_sum :: "year_table \<Rightarrow> int64" where
  "total_sum df = sum_list [column_sum image_processing df,
                            column_sum machine_learning df,
                            column_sum deep_learning df]"

text \<open>
  What \<^verbatim>\<open>print_stats\<close> writes to standard output: the line \<^verbatim>\<open>Stats after Y:\<close> when a year is
  given, then the three percentages.
\<close>

record stats =
  stats_after :: "int option"
  percent_ip :: npfloat
  percent_ml :: npfloat
  percent_dl :: npfloat

text \<open>\<^verbatim>\<open>df[col].sum() / df.sum().sum() * 100\<close> on a table with \<^verbatim>\<open>int64\<close> columns.\<close>

definition percent :: "(techs \<Rightarrow> int64) \<Rightarrow> year_table \<Rightarrow> npfloat" where
  "percent col df = np_mul (true_divide (column_sum col df) (total_sum df)) (Fin 100)"

text \<open>
  \<^verbatim>\<open>print_stats\<close>. The table it is given is the result of \<^verbatim>\<open>format_df\<close>, which has no row
  only when the CSV has none; pandas then reads the columns as \<^verbatim>\<open>object\<close>, the sums are
  the Python integer 0, and the first division raises \<^verbatim>\<open>ZeroDivisionError\<close>. A table with
  rows has \<^verbatim>\<open>int64\<close> columns, also after the year filter has removed every row of it.
\<close>

definition print_stats :: "year_table \<Rightarrow> int option \<Rightarrow> error + stats" where
  "print_stats df after_year_only =
     (if df = [] then Inl ZeroDivisionError
      else let df' = select_years df after_year_only in
           Inr \<lparr>stats_after = after_year_only,
                percent_ip = percent image_processing df',
                percent_ml = percent machine_learning df',
                percent_dl = percent deep_learning df'\<rparr>)"

subsection \<open>generate\_stacked\_barchart and main\<close>

text \<open>The command-line arguments of \<^verbatim>\<open>techniques.py\<close> that decide what is plotted and printed.\<close>

record techniques_args =
  after_year_only :: "int option"
  no_print_stats :: bool
  no_show_legend :: bool
  legend_title :: string
  title :: "string option"
  xlabel :: string
  ylabel :: string

text \<open>
  The chart that \<^verbatim>\<open>generate_stacked_barchart\<close> draws: \<^verbatim>\<open>df.plot(kind='bar', stacked=True)\<close>
  draws one bar per row of the frame it is given, so the chart data is that frame. For a
  frame without rows \<^verbatim>\<open>df.plot\<close> raises \<^verbatim>\<open>TypeError\<close>.
\<close>

record barchart =
  chart_data :: year_table
  chart_xlabel :: string
  chart_ylabel :: string
  chart_legend_title :: string
  chart_title :: "string option"

definition generate_stacked_barchart :: "year_table \<Rightarrow> techniques_args \<Rightarrow> error + barchart" where
  "generate_stacked_barchart df args =
     (if df = [] then Inl NoNumericDataToPlot
      else Inr \<lparr>chart_data = df,
                chart_xlabel = xlabel args,
                chart_ylabel = ylabel args,
                chart_legend_title = legend_title args,
                chart_title = title args\<rparr>)"

text \<open>
  \<^verbatim>\<open>main\<close> (lines 171-178), from the rows read from the CSV: the chart is drawn from the
  whole aggregated table, and then the statistics are printed unless
  \<^verbatim>\<open>--no-print-stats\<close>. An exception ends the run.
\<close>

definition main_techniques ::
  "techniques_args \<Rightarrow> publication list \<Rightarrow> error + (barchart \<times> stats option)" where
  "main_techniques args csv =
     (let df = format_df csv in
      case generate_stacked_barchart df args of
        Inl e \<Rightarrow> Inl e
      | Inr chart \<Rightarrow>
          (if no_print_stats args then Inr (chart, None)
           else case print_stats df (after_year_only args) of
                  Inl e \<Rightarrow> Inl e
                | Inr s \<Rightarrow> Inr (chart, Some s)))"

subsection \<open>Notions for stating the properties of the statistics\<close>

text \<open>An integer is in the range of \<^verbatim>\<open>int64\<close>.\<close>

definition fits_int64 :: "int \<Rightarrow> bool" where
  "fits_int64 n = (- (2 ^ 63) \<le> n \<and> n < 2 ^ 63)"

text \<open>
  The exact sum of a column over the rows of a table, and the exact sum of all cells: sums
  of integers, which neither wrap around nor round.
\<close>

definition cell_sum :: "(techs \<Rightarrow> int64) \<Rightarrow> year_table \<Rightarrow> int" where
  "cell_sum col rows = sum_list (map (\<lambda>(k, r). sint (col r)) rows)"

definition cell_total :: "year_table \<Rightarrow> int" where
  "cell_total rows = cell_sum image_processing rows + cell_sum machine_learning rows
                     + cell_sum deep_learning rows"

section \<open>heatmap.py\<close>

subsection \<open>Input\<close>

text \<open>
  One row of the input CSV as the script reads it: the two columns that
  \<^verbatim>\<open>pandas_to_geopandas\<close> uses. Coordinates are finite numbers (a CSV cell that parses to
  \<^verbatim>\<open>nan\<close> is outside this model).
\<close>

record lat_long =
  Latitude_rounded :: real
  Longitude_rounded :: real

text \<open>A \<^verbatim>\<open>shapely\<close> point, by its first coordinate tuple \<^verbatim>\<open>pt.coords[0] = (x, y)\<close>.\<close>

type_synonym point = "real \<times> real"

type_synonym 'a grid = "'a list list"

subsection \<open>pandas\_to\_geopandas\<close>

text \<open>\<^verbatim>\<open>[Point(xy) for xy in zip(df.Longitude_rounded, df.Latitude_rounded)]\<close>.\<close>

definition pandas_to_geopandas :: "lat_long list \<Rightarrow> point list" where
  "pandas_to_geopandas df = map (\<lambda>row. (Longitude_rounded row, Latitude_rounded row)) df"

subsection \<open>numpy.histogram2d\<close>

text \<open>
  \<^verbatim>\<open>_get_outer_edges\<close> without a \<^verbatim>\<open>range\<close> argument: the range of an axis is the minimum
  and maximum of the data on it (0 and 1 for no data), widened by one half on each side
  when the two are equal.
\<close>

definition get_outer_edges :: "real list \<Rightarrow> real \<times> real" where
  "get_outer_edges a =
     (let (first_edge, last_edge) = (if a = [] then (0, 1) else (Min (set a), Max (set a)))
      in if first_edge = last_edge then (first_edge - 1 / 2, last_edge + 1 / 2)
         else (first_edge, last_edge))"

text \<open>\<^verbatim>\<open>np.linspace(start, stop, num)\<close> for \<open>num\<close> of at least two.\<close>

definition linspace :: "real \<Rightarrow> real \<Rightarrow> nat \<Rightarrow> real list" where
  "linspace start stop num =
     map (\<lambda>i. start + real i * ((stop - start) / real (num - 1))) [0..<num]"

text \<open>
  \<^verbatim>\<open>np.searchsorted(a, v, side='right')\<close> on a sorted array: the index \<open>i\<close> with
  \<open>a[i-1] \<le> v < a[i]\<close>.
\<close>

definition searchsorted_right :: "real list \<Rightarrow> real \<Rightarrow> nat" where
  "searchsorted_right a v = length (takeWhile (\<lambda>e. e \<le> v) a)"

text \<open>The edges of one axis for an integer bin count \<open>n\<close>: \<open>n + 1\<close> evenly spaced values.\<close>

definition bin_edges :: "int \<Rightarrow> real list \<Rightarrow> real list" where
  "bin_edges n a = (let (smin, smax) = get_outer_edges a in linspace smin smax (nat n + 1))"

text \<open>
  The bin number of a value on one axis: bin 0 is the outlier bin below the first edge,
  bin \<open>n + 1\<close> the one from the last edge on, and a value equal to the last edge is moved
  one bin to the left, into the last proper bin.
\<close>

definition bin_number :: "real list \<Rightarrow> real \<Rightarrow> nat" where
  "bin_number edges v =
     (let i = searchsorted_right edges v in if v = last edges then i - 1 else i)"

text \<open>
  \<^verbatim>\<open>np.histogram2d(x, y, bins)\<close> for two integer bin counts: every sample gets a pair of
  bin numbers, the pairs are counted (\<^verbatim>\<open>np.bincount\<close>), and the outlier bins are cut off
  (\<^verbatim>\<open>hist[1:-1, 1:-1]\<close>), so cell \<open>(i, j)\<close> of the result counts the samples with bin numbers
  \<open>(i + 1, j + 1)\<close>. The edges are computed in exact arithmetic.
\<close>

definition bin_numbers :: "real list \<Rightarrow> real list \<Rightarrow> int \<times> int \<Rightarrow> (nat \<times> nat) list" where
  "bin_numbers x y bins =
     map (\<lambda>(u, v). (bin_number (bin_edges (fst bins) x) u, bin_number (bin_edges (snd bins) y) v))
       (zip x y)"

definition histogram2d :: "real list \<Rightarrow> real list \<Rightarrow> int \<times> int \<Rightarrow> error + nat grid" where
  "histogram2d x y bins =
     (if length x \<noteq> length y then Inl LengthMismatch
      else if fst bins < 1 then Inl (BinsNotPositive 0)
      else if snd bins < 1 then Inl (BinsNotPositive 1)
      else Inr (map (\<lambda>i. map (\<lambda>j. count_list (bin_numbers x y bins) (i + 1, j + 1))
                               [0..<nat (snd bins)])
                    [0..<nat (fst bins)]))"

subsection \<open>The log transform\<close>

text \<open>\<^verbatim>\<open>np.log\<close> on one \<^verbatim>\<open>float64\<close>: \<^verbatim>\<open>-inf\<close> at zero, \<^verbatim>\<open>nan\<close> below.\<close>

definition np_log :: "real \<Rightarrow> npfloat" where
  "np_log v = (if v = 0 then NInf else if v < 0 then NaN else Fin (ln v))"

definition isneginf :: "npfloat \<Rightarrow> bool" where
  "isneginf v = (v = NInf)"

text \<open>Lines 188-189: the logarithm of every cell, then every \<^verbatim>\<open>-inf\<close> overwritten with 0.\<close>

definition log_transform :: "nat grid \<Rightarrow> npfloat grid" where
  "log_transform heatmap =
     (let logheatmap = map (map (\<lambda>c. np_log (real c))) heatmap
      in map (map (\<lambda>v. if isneginf v then Fin 0 else v)) logheatmap)"

subsection \<open>scipy.ndimage.gaussian\_filter\<close>

text \<open>The boundary modes of \<^verbatim>\<open>scipy.ndimage\<close> and their names.\<close>

datatype extend_mode = Nearest | Wrap | Reflect | Mirror | Constant

definition extend_mode_to_code :: "string \<Rightarrow> error + extend_mode" where
  "extend_mode_to_code m =
     (if m = ''nearest'' then Inr Nearest
      else if m = ''wrap'' \<or> m = ''grid-wrap'' then Inr Wrap
      else if m = ''reflect'' \<or> m = ''grid-mirror'' then Inr Reflect
      else if m = ''mirror'' then Inr Mirror
      else if m = ''constant'' \<or> m = ''grid-constant'' then Inr Constant
      else Inl BoundaryModeNotSupported)"

text \<open>
  The position of a line of length \<open>n\<close> that position \<open>i\<close> of the extended line reads:
  \<open>None\<close> is the constant fill value 0.
\<close>

definition extend_index :: "extend_mode \<Rightarrow> nat \<Rightarrow> int \<Rightarrow> nat option" where
  "extend_index m n i =
     (case m of
        Nearest \<Rightarrow> Some (nat (max 0 (min (int n - 1) i)))
      | Wrap \<Rightarrow> Some (nat (i mod int n))
      | Reflect \<Rightarrow>
          (let k = i mod (2 * int n) in Some (nat (if k < int n then k else 2 * int n - 1 - k)))
      | Mirror \<Rightarrow>
          (if n = 1 then Some 0
           else let k = i mod (2 * int n - 2)
                in Some (nat (if k < int n then k else 2 * int n - 2 - k)))
      | Constant \<Rightarrow> (if 0 \<le> i \<and> i < int n then Some (nat i) else None))"

text \<open>\<^verbatim>\<open>_gaussian_kernel1d(sigma, 0, radius)\<close>: the normalised weights on \<open>-radius .. radius\<close>.\<close>

definition gaussian_kernel1d :: "real \<Rightarrow> nat \<Rightarrow> real list" where
  "gaussian_kernel1d sigma radius =
     (let phi_x = map (\<lambda>i. exp (- (1 / 2) / (sigma * sigma) * (real_of_int (int i - int radius))\<^sup>2))
                      [0..<2 * radius + 1]
      in map (\<lambda>p. p / sum_list phi_x) phi_x)"

text \<open>\<^verbatim>\<open>correlate1d\<close> of one line with the weights, origin 0, fill value 0.\<close>

definition correlate1d :: "npfloat list \<Rightarrow> real list \<Rightarrow> extend_mode \<Rightarrow> npfloat list" where
  "correlate1d line weights m =
     map (\<lambda>i. foldl np_add (Fin 0)
                (map (\<lambda>j. np_mul (Fin (weights ! j))
                             (case extend_index m (length line)
                                     (int i + int j - int (length weights div 2)) of
                                None \<Rightarrow> Fin 0
                              | Some k \<Rightarrow> line ! k))
                     [0..<length weights]))
         [0..<length line]"

text \<open>
  \<^verbatim>\<open>gaussian_filter(input, sigma, mode=mode)\<close> with the defaults \<^verbatim>\<open>order=0\<close>, \<^verbatim>\<open>cval=0.0\<close>
  and \<^verbatim>\<open>truncate=4.0\<close>: the one-dimensional filter along axis 0 (down the columns), then
  along axis 1 (along the rows); an axis whose sigma is not above \<^verbatim>\<open>1e-15\<close> is skipped, which
  leaves the input as it is.
\<close>

definition gaussian_filter :: "npfloat grid \<Rightarrow> real \<Rightarrow> string \<Rightarrow> error + npfloat grid" where
  "gaussian_filter input sigma mode_name =
     (if 1 / 10 ^ 15 < sigma then
        (case extend_mode_to_code mode_name of
           Inl e \<Rightarrow> Inl e
         | Inr m \<Rightarrow>
             (let weights = rev (gaussian_kernel1d sigma (nat \<lfloor>4 * sigma + 1 / 2\<rfloor>));
                  axis0 = transpose (map (\<lambda>line. correlate1d line weights m) (transpose input))
              in Inr (map (\<lambda>line. correlate1d line weights m) axis0)))
      else Inr input)"

subsection \<open>generate\_heatmap\<close>

text \<open>
  The command-line arguments of \<^verbatim>\<open>heatmap.py\<close> that reach the computation, and two of
  the others: the colormap and the coordinate reference system. \<^verbatim>\<open>--bins\<close> takes exactly
  two integers.
\<close>

record heatmap_args =
  bins :: "int \<times> int"
  smoothing :: real
  mode :: string
  cmap :: string
  crs :: string

text \<open>Line 185, \<^verbatim>\<open>x, y = zip(*coords)\<close>: no coordinate gives nothing to unpack.\<close>

definition unzip_coords :: "point list \<Rightarrow> error + (real list \<times> real list)" where
  "unzip_coords coords =
     (case coords of
        [] \<Rightarrow> Inl NotEnoughValuesToUnpack
      | _ \<Rightarrow> Inr (map fst coords, map snd coords))"

text \<open>
  Lines 184-186, the binning: the raw histogram \<^verbatim>\<open>heatmap\<close>, with the latitudes on the first
  axis and the longitudes on the second.
\<close>

definition raw_heatmap :: "point list \<Rightarrow> heatmap_args \<Rightarrow> error + nat grid" where
  "raw_heatmap df args =
     (case unzip_coords df of
        Inl e \<Rightarrow> Inl e
      | Inr (x, y) \<Rightarrow> histogram2d y x (bins args))"

text \<open>Line 190, the smoothing of a grid with the sigma and the mode of the arguments.\<close>

definition smooth :: "npfloat grid \<Rightarrow> heatmap_args \<Rightarrow> error + npfloat grid" where
  "smooth logheatmap args = gaussian_filter logheatmap (smoothing args) (mode args)"

definition generate_heatmap :: "point list \<Rightarrow> heatmap_args \<Rightarrow> error + npfloat grid" where
  "generate_heatmap df args =
     (case raw_heatmap df args of
        Inl e \<Rightarrow> Inl e
      | Inr heatmap \<Rightarrow> smooth (log_transform heatmap) args)"

subsection \<open>overlay\_heat\_on\_map and main\<close>

text \<open>
  The bounding box \<^verbatim>\<open>world.boundary.total_bounds = (minx, miny, maxx, maxy)\<close> of the
  basemap, which comes from a dataset outside the repository.
\<close>

type_synonym bounds = "real \<times> real \<times> real \<times> real"

text \<open>
  The raster that \<^verbatim>\<open>plt.imshow(heat, cmap=args.cmap, extent=[minx, maxx, maxy, miny])\<close>
  draws: the grid, stretched over the extent of the basemap.
\<close>

record heat_image =
  image_data :: "npfloat grid"
  image_extent :: "real \<times> real \<times> real \<times> real"
  image_cmap :: string

definition overlay_heat_on_map :: "bounds \<Rightarrow> npfloat grid \<Rightarrow> heatmap_args \<Rightarrow> heat_image" where
  "overlay_heat_on_map total_bounds heat args =
     (let (minx, miny, maxx, maxy) = total_bounds
      in \<lparr>image_data = heat, image_extent = (minx, maxx, maxy, miny), image_cmap = cmap args\<rparr>)"

definition main_heatmap :: "heatmap_args \<Rightarrow> lat_long list \<Rightarrow> bounds \<Rightarrow> error + heat_image" where
  "main_heatmap args csv total_bounds =
     (let gdf = pandas_to_geopandas csv
      in case generate_heatmap gdf args of
           Inl e \<Rightarrow> Inl e
         | Inr heatmap \<Rightarrow> Inr (overlay_heat_on_map total_bounds heatmap args))"

subsection \<open>Notions for stating the properties of the binning\<close>

text \<open>The sum of all cells of a grid of counts.\<close>

definition sum_cells :: "nat grid \<Rightarrow> nat" where
  "sum_cells h = sum_list (map sum_list h)"

text \<open>
  A pair of bin numbers is in the bin range when neither is an outlier bin: these are the
  pairs that \<^verbatim>\<open>hist[1:-1, 1:-1]\<close> keeps.
\<close>

definition in_bin_range :: "int \<times> int \<Rightarrow> nat \<times> nat \<Rightarrow> bool" where
  "in_bin_range nbins b =
     (1 \<le> fst b \<and> int (fst b) \<le> fst nbins \<and> 1 \<le> snd b \<and> int (snd b) \<le> snd nbins)"

text \<open>
  The bin numbers that the histogram of the points \<open>df\<close> gives to a point \<open>(x, y)\<close>:
  the latitude \<open>y\<close> on the first axis, the longitude \<open>x\<close> on the second.
\<close>

definition point_bins :: "point list \<Rightarrow> int \<times> int \<Rightarrow> point \<Rightarrow> nat \<times> nat" where
  "point_bins df nbins p =
     (bin_number (bin_edges (fst nbins) (map snd df)) (snd p),
      bin_number (bin_edges (snd nbins) (map fst df)) (fst p))"

text \<open>A point \<open>(x, y)\<close> lies inside the bounding box of the basemap.\<close>

definition inside_extent :: "bounds \<Rightarrow> point \<Rightarrow> bool" where
  "inside_extent total_bounds p =
     (let (minx, miny, maxx, maxy) = total_bounds
      in minx \<le> fst p \<and> fst p \<le> maxx \<and> miny \<le> snd p \<and> snd p \<le> maxy)"

subsection \<open>Auxiliary definitions for the proofs about format\_df\<close>

text \<open>The row of year \<open>y\<close> in a table, all zeros when the year has no row.\<close>

definition zero_techs :: techs where
  "zero_techs = \<lparr>image_processing = 0, machine_learning = 0, deep_learning = 0\<rparr>"

definition group_val :: "year_table \<Rightarrow> int \<Rightarrow> techs" where
  "group_val t y = (case map_of t y of None \<Rightarrow> zero_techs | Some r \<Rightarrow> r)"

definition sum_techs :: "publication list \<Rightarrow> techs" where
  "sum_techs ps = \<lparr>image_processing = sum_list (map Image_Processing ps),
     machine_learning = sum_list (map Machine_Learning ps),
     deep_learning = sum_list (map Deep_Learning ps)\<rparr>"

section \<open>Properties of the rounding\<close>

lemma rne_error: "\<bar>of_int (rne y) - y\<bar> \<le> 1 / 2"
proof -
  have "of_int \<lfloor>y\<rfloor> \<le> y" "y < of_int \<lfloor>y\<rfloor> + 1" by linarith+
  then show ?thesis by (auto simp: rne_def Let_def)
qed

lemma binade_bounds:
  assumes "0 < x"
  shows "2 powi binade x \<le> x \<and> x < 2 powi (binade x + 1)"
proof (cases "1 \<le> x")
  case True
  define n where "n = \<lfloor>x\<rfloor>"
  have n: "1 \<le> n" using True by (simp add: n_def le_floor_iff)
  then have n0: "0 < n" by simp
  have b: "1 \<le> bitlen n" using n0 by (simp add: bitlen_alt_def)
  from bitlen_bounds [OF n0] have lo: "2 ^ nat (bitlen n - 1) \<le> n" and hi: "n < 2 ^ nat (bitlen n)"
    by simp_all
  have e: "binade x = bitlen n - 1" using True by (simp add: binade_def n_def)
  have "(2::real) powi (bitlen n - 1) = 2 ^ nat (bitlen n - 1)"
    using b by (simp add: power_int_def)
  then have "(2::real) powi (bitlen n - 1) = real_of_int (2 ^ nat (bitlen n - 1))" by simp
  moreover have "real_of_int (2 ^ nat (bitlen n - 1)) \<le> real_of_int n"
    using lo by (simp only: of_int_le_iff)
  moreover have "real_of_int n \<le> x" by (simp add: n_def)
  ultimately have l: "2 powi binade x \<le> x" unfolding e by linarith
  have "n + 1 \<le> 2 ^ nat (bitlen n)" using hi by simp
  then have "real_of_int (n + 1) \<le> real_of_int (2 ^ nat (bitlen n))" by (simp only: of_int_le_iff)
  then have "real_of_int (n + 1) \<le> 2 ^ nat (bitlen n)" by simp
  moreover have "x < real_of_int (n + 1)" unfolding n_def by linarith
  ultimately have "x < 2 ^ nat (bitlen n)" by linarith
  moreover have "(2::real) powi (bitlen n - 1 + 1) = 2 ^ nat (bitlen n)"
    using b by (simp add: power_int_def)
  ultimately have u: "x < 2 powi (binade x + 1)" by (simp add: e)
  from l u show ?thesis ..
next
  case False
  then have x1: "x < 1" by simp
  define m where "m = \<lceil>1 / x\<rceil>"
  have inv: "1 < 1 / x" using assms x1 by simp
  then have m2: "2 \<le> m" unfolding m_def by linarith
  define k where "k = bitlen (m - 1)"
  have m0: "0 < m - 1" using m2 by simp
  have k1: "1 \<le> k" using m0 by (simp add: k_def bitlen_alt_def)
  from bitlen_bounds [OF m0] have lo: "2 ^ nat (k - 1) \<le> m - 1" and hi: "m - 1 < 2 ^ nat k"
    by (simp_all add: k_def)
  have e: "binade x = - k" using False by (simp add: binade_def m_def k_def)
  have "m \<le> 2 ^ nat k" using hi by simp
  then have "real_of_int m \<le> real_of_int (2 ^ nat k)" by (simp only: of_int_le_iff)
  then have "real_of_int m \<le> 2 ^ nat k" by simp
  moreover have "1 / x \<le> real_of_int m" unfolding m_def by linarith
  ultimately have "1 / x \<le> 2 ^ nat k" by linarith
  then have "1 \<le> 2 ^ nat k * x" using assms by (simp add: field_simps)
  then have "1 / 2 ^ nat k \<le> x" by (simp add: field_simps)
  moreover have "(2::real) powi (- k) = 1 / 2 ^ nat k"
    using k1 by (simp add: power_int_def power_one_over)
  ultimately have l: "2 powi binade x \<le> x" by (simp add: e)
  have "real_of_int (2 ^ nat (k - 1)) \<le> real_of_int (m - 1)" using lo by (simp only: of_int_le_iff)
  then have "2 ^ nat (k - 1) \<le> real_of_int (m - 1)" by simp
  moreover have "real_of_int (m - 1) < 1 / x" unfolding m_def by linarith
  ultimately have "2 ^ nat (k - 1) < 1 / x" by linarith
  then have "2 ^ nat (k - 1) * x < 1" using assms by (simp add: field_simps)
  then have "x < 1 / 2 ^ nat (k - 1)" by (simp add: field_simps)
  moreover have "(2::real) powi (- k + 1) = 1 / 2 ^ nat (k - 1)"
  proof (cases "k = 1")
    case True
    then show ?thesis by simp
  next
    case False
    with k1 have "k - 1 > 0" by simp
    then have "(2::real) powi (- k + 1) = 1 / 2 ^ nat (k - 1)"
      by (simp add: power_int_def power_one_over)
    then show ?thesis .
  qed
  ultimately have u: "x < 2 powi (binade x + 1)" by (simp add: e)
  from l u show ?thesis ..
qed

lemma round64_normal:
  assumes lo: "2 powi (- 1022) \<le> \<bar>x\<bar>" and hi: "\<bar>x\<bar> \<le> 2 powi 1023"
  shows "\<exists>r. round64 x = Fin r \<and> \<bar>r - x\<bar> \<le> \<bar>x\<bar> / 2 ^ 53"
proof -
  have pos: "0 < \<bar>x\<bar>"
  proof -
    have "(0::real) < 2 powi (- 1022)" by (rule zero_less_power_int) simp
    with lo show ?thesis by linarith
  qed
  then have x0: "x \<noteq> 0" by simp
  define E where "E = binade \<bar>x\<bar>"
  from binade_bounds [OF pos] have El: "2 powi E \<le> \<bar>x\<bar>" and Eu: "\<bar>x\<bar> < 2 powi (E + 1)"
    by (simp_all add: E_def)
  have Ege: "- 1022 \<le> E"
  proof (rule ccontr)
    assume "\<not> - 1022 \<le> E"
    then have "E + 1 \<le> - 1022" by simp
    then have "(2::real) powi (E + 1) \<le> 2 powi (- 1022)"
      by (rule power_int_increasing) simp
    with lo Eu show False by linarith
  qed
  define s :: real where "s = 2 powi (E - 52)"
  have s0: "0 < s" unfolding s_def by (rule zero_less_power_int) simp
  define m where "m = rne (\<bar>x\<bar> / s)"
  define r where "r = of_int m * s"
  have e: "max (binade \<bar>x\<bar>) (- 1022) - 52 = E - 52" using Ege by (simp add: E_def)
  have half: "s / 2 = 2 powi E / 2 ^ 53"
  proof -
    have "(2::real) powi (E - 52) = 2 powi E / 2 powi 52" by (rule power_int_diff) simp
    then show ?thesis by (simp add: s_def)
  qed
  have "\<bar>of_int m - \<bar>x\<bar> / s\<bar> \<le> 1 / 2" unfolding m_def by (rule rne_error)
  then have "\<bar>of_int m - \<bar>x\<bar> / s\<bar> * s \<le> 1 / 2 * s" using s0 by (simp only: mult_le_cancel_right_pos)
  moreover have "\<bar>of_int m - \<bar>x\<bar> / s\<bar> * s = \<bar>of_int m * s - \<bar>x\<bar>\<bar>"
  proof -
    have "\<bar>of_int m - \<bar>x\<bar> / s\<bar> * s = \<bar>(of_int m - \<bar>x\<bar> / s) * s\<bar>"
      using s0 by (simp add: abs_mult)
    also have "(of_int m - \<bar>x\<bar> / s) * s = of_int m * s - \<bar>x\<bar>"
      using s0 by (simp add: field_simps)
    finally show ?thesis .
  qed
  ultimately have err: "\<bar>r - \<bar>x\<bar>\<bar> \<le> s / 2" by (simp add: r_def)
  have "2 powi E / 2 ^ 53 \<le> \<bar>x\<bar> / 2 ^ 53" using El by (simp add: divide_right_mono)
  with err half have rel: "\<bar>r - \<bar>x\<bar>\<bar> \<le> \<bar>x\<bar> / 2 ^ 53" by linarith
  have "r \<le> \<bar>x\<bar> + \<bar>x\<bar> / 2 ^ 53" using rel by linarith
  also have "\<dots> \<le> 2 powi 1023 + 2 powi 1023 / 2 ^ 53"
    using hi by (intro add_mono divide_right_mono) simp_all
  also have "\<dots> < 2 powi 1023 + 2 powi 1023" by simp
  also have "\<dots> = 2 powi 1024"
  proof -
    have "(2::real) powi (1023 + 1) = 2 powi 1023 * 2 powi 1" by (rule power_int_add) simp
    then show ?thesis by simp
  qed
  finally have nov: "\<not> 2 powi 1024 \<le> r" by simp
  have rdef: "r = of_int (rne (\<bar>x\<bar> / 2 powi (E - 52))) * 2 powi (E - 52)"
    by (simp add: r_def m_def s_def)
  have val: "round64 x = Fin (if 0 < x then r else - r)"
    using x0 nov unfolding round64_def e Let_def rdef [symmetric] by simp
  have "\<bar>(if 0 < x then r else - r) - x\<bar> = \<bar>r - \<bar>x\<bar>\<bar>"
    using x0 by (auto simp: abs_if)
  with rel val show ?thesis by auto
qed

lemma round64_zero: "round64 0 = Fin 0"
  by (simp add: round64_def)

lemma normal_range:
  assumes "1 / 2 ^ 100 \<le> \<bar>x::real\<bar>" "\<bar>x\<bar> \<le> 2 ^ 100"
  shows "2 powi (- 1022) \<le> \<bar>x\<bar> \<and> \<bar>x\<bar> \<le> 2 powi 1023"
proof -
  have "(2::real) powi (- 1022) \<le> 2 powi (- 100)" by (rule power_int_increasing) simp_all
  also have "\<dots> = 1 / 2 ^ 100" by (simp add: power_int_minus_divide)
  finally have a: "2 powi (- 1022) \<le> \<bar>x\<bar>" using assms(1) by linarith
  have "(2::real) powi 100 \<le> 2 powi 1023" by (rule power_int_increasing) simp_all
  then have b: "\<bar>x\<bar> \<le> 2 powi 1023" using assms(2) by simp
  from a b show ?thesis ..
qed

lemma round64_rel:
  assumes "x = 0 \<or> (1 / 2 ^ 100 \<le> \<bar>x\<bar> \<and> \<bar>x\<bar> \<le> 2 ^ 100)"
  shows "\<exists>r. round64 x = Fin r \<and> \<bar>r - x\<bar> \<le> \<bar>x\<bar> / 2 ^ 53"
proof (cases "x = 0")
  case True
  then have "round64 x = Fin 0" by (simp add: round64_zero)
  with True show ?thesis by simp
next
  case False
  with assms have "1 / 2 ^ 100 \<le> \<bar>x\<bar>" "\<bar>x\<bar> \<le> 2 ^ 100" by simp_all
  from normal_range [OF this] show ?thesis using round64_normal by blast
qed

lemma rel_half:
  fixes x y :: real
  assumes "\<bar>y - x\<bar> \<le> \<bar>x\<bar> / 2 ^ 53"
  shows "\<bar>x\<bar> / 2 \<le> \<bar>y\<bar> \<and> \<bar>y\<bar> \<le> 2 * \<bar>x\<bar>"
proof -
  have "\<bar>x\<bar> / 2 ^ 53 \<le> \<bar>x\<bar> / 2"
    by (rule divide_left_mono) simp_all
  with assms have "\<bar>y - x\<bar> \<le> \<bar>x\<bar> / 2" by linarith
  then show ?thesis by (auto simp: abs_if split: if_splits)
qed

lemma rel_trans:
  fixes x y z :: real
  assumes "\<bar>y - x\<bar> \<le> a * \<bar>x\<bar>" and "\<bar>z - y\<bar> \<le> \<bar>y\<bar> / 2 ^ 53" and "0 \<le> a"
  shows "\<bar>z - x\<bar> \<le> (a + 1 / 2 ^ 53 + a / 2 ^ 53) * \<bar>x\<bar>"
proof -
  have "\<bar>y\<bar> \<le> \<bar>x\<bar> + a * \<bar>x\<bar>" using assms(1) by linarith
  then have "\<bar>y\<bar> / 2 ^ 53 \<le> (\<bar>x\<bar> + a * \<bar>x\<bar>) / 2 ^ 53" by (simp add: divide_right_mono)
  with assms(2) have "\<bar>z - y\<bar> \<le> (\<bar>x\<bar> + a * \<bar>x\<bar>) / 2 ^ 53" by linarith
  with assms(1) have "\<bar>z - x\<bar> \<le> a * \<bar>x\<bar> + (\<bar>x\<bar> + a * \<bar>x\<bar>) / 2 ^ 53" by linarith
  also have "\<dots> = (a + 1 / 2 ^ 53 + a / 2 ^ 53) * \<bar>x\<bar>" by (simp add: algebra_simps add_divide_distrib)
  finally show ?thesis .
qed

lemma rel_weaken:
  fixes x y :: real
  assumes "\<bar>y - x\<bar> \<le> a * \<bar>x\<bar>" "a \<le> b"
  shows "\<bar>y - x\<bar> \<le> b * \<bar>x\<bar>"
proof -
  have "a * \<bar>x\<bar> \<le> b * \<bar>x\<bar>" using assms(2) by (simp add: mult_right_mono)
  with assms(1) show ?thesis by linarith
qed

lemma rel_div:
  fixes A T a t :: real
  assumes a: "\<bar>a - A\<bar> \<le> \<bar>A\<bar> / 2 ^ 53" and t: "\<bar>t - T\<bar> \<le> \<bar>T\<bar> / 2 ^ 53" and T: "T \<noteq> 0"
  shows "\<bar>a / t - A / T\<bar> \<le> 4 / 2 ^ 53 * \<bar>A / T\<bar>"
proof -
  have th: "\<bar>T\<bar> / 2 \<le> \<bar>t\<bar>" using rel_half [OF t] by simp
  have Tpos: "0 < \<bar>T\<bar>" using T by simp
  then have tpos: "0 < \<bar>t\<bar>" using th by linarith
  then have t0: "t \<noteq> 0" by auto
  have "a / t - A / T = ((a - A) * T - A * (t - T)) / (t * T)"
    using t0 T by (simp add: field_simps)
  then have "\<bar>a / t - A / T\<bar> = \<bar>(a - A) * T - A * (t - T)\<bar> / (\<bar>t\<bar> * \<bar>T\<bar>)"
    by (simp add: abs_mult)
  also have "\<dots> \<le> (2 * (\<bar>A\<bar> * \<bar>T\<bar>) / 2 ^ 53) / (\<bar>t\<bar> * \<bar>T\<bar>)"
  proof (rule divide_right_mono)
    have "\<bar>(a - A) * T - A * (t - T)\<bar> \<le> \<bar>a - A\<bar> * \<bar>T\<bar> + \<bar>A\<bar> * \<bar>t - T\<bar>"
      by (metis abs_mult abs_triangle_ineq4)
    also have "\<dots> \<le> (\<bar>A\<bar> / 2 ^ 53) * \<bar>T\<bar> + \<bar>A\<bar> * (\<bar>T\<bar> / 2 ^ 53)"
      using a t by (intro add_mono mult_right_mono mult_left_mono) simp_all
    also have "\<dots> = 2 * (\<bar>A\<bar> * \<bar>T\<bar>) / 2 ^ 53" by simp
    finally show "\<bar>(a - A) * T - A * (t - T)\<bar> \<le> 2 * (\<bar>A\<bar> * \<bar>T\<bar>) / 2 ^ 53" .
    show "0 \<le> \<bar>t\<bar> * \<bar>T\<bar>" by simp
  qed
  also have "\<dots> \<le> (2 * (\<bar>A\<bar> * \<bar>T\<bar>) / 2 ^ 53) / (\<bar>T\<bar> / 2 * \<bar>T\<bar>)"
  proof (rule divide_left_mono)
    show "\<bar>T\<bar> / 2 * \<bar>T\<bar> \<le> \<bar>t\<bar> * \<bar>T\<bar>" using th by (rule mult_right_mono) simp
    show "0 \<le> 2 * (\<bar>A\<bar> * \<bar>T\<bar>) / 2 ^ 53" by simp
    have "0 < \<bar>T\<bar> / 2" using Tpos by simp
    then show "0 < \<bar>t\<bar> * \<bar>T\<bar> * (\<bar>T\<bar> / 2 * \<bar>T\<bar>)"
      using tpos Tpos by (intro mult_pos_pos)
  qed
  also have "\<dots> = 4 / 2 ^ 53 * \<bar>A / T\<bar>"
  proof -
    have "\<bar>T\<bar> * \<bar>T\<bar> \<noteq> 0" using T by simp
    then show ?thesis by (simp add: field_simps abs_mult)
  qed
  finally show ?thesis .
qed

section \<open>Properties of the integer sums and of the percentages\<close>

lemma signed_take_bit_sint64: "signed_take_bit 63 (sint (w :: 64 word)) = sint w"
  using sint_ge [of w] sint_lt [of w] by (simp add: signed_take_bit_int_eq_self)

lemma sint_sum_list:
  "sint (sum_list ws :: 64 word) = signed_take_bit 63 (sum_list (map sint ws))"
proof (induction ws)
  case Nil
  show ?case by simp
next
  case (Cons w ws)
  have "sint (w + sum_list ws) = signed_take_bit 63 (sint w + sint (sum_list ws))"
    by (simp add: sint_word_add)
  also have "\<dots> = signed_take_bit 63 (signed_take_bit 63 (sint w)
                        + signed_take_bit 63 (sum_list (map sint ws)))"
    by (simp only: Cons.IH signed_take_bit_sint64)
  also have "\<dots> = signed_take_bit 63 (sint w + sum_list (map sint ws))"
    by (rule signed_take_bit_add)
  finally show ?case by simp
qed

lemma sint_sum_list_fits:
  "fits_int64 (sum_list (map sint ws)) \<Longrightarrow> sint (sum_list ws :: 64 word) = sum_list (map sint ws)"
  by (simp add: sint_sum_list fits_int64_def signed_take_bit_int_eq_self)

lemma sint_column_sum:
  assumes "fits_int64 (cell_sum col rows)"
  shows "sint (column_sum col rows) = cell_sum col rows"
proof -
  have m: "map sint (map (\<lambda>(k, r). col r) rows) = map (\<lambda>(k, r). sint (col r)) rows"
    by (induction rows) auto
  have "fits_int64 (sum_list (map sint (map (\<lambda>(k, r). col r) rows)))"
    using assms unfolding m cell_sum_def .
  from sint_sum_list_fits [OF this] show ?thesis
    unfolding column_sum_def cell_sum_def m .
qed

lemma sint_total_sum:
  assumes "fits_int64 (cell_sum image_processing rows)" "fits_int64 (cell_sum machine_learning rows)"
    "fits_int64 (cell_sum deep_learning rows)" "fits_int64 (cell_total rows)"
  shows "sint (total_sum rows) = cell_total rows"
proof -
  have "sint (total_sum rows)
          = signed_take_bit 63 (sint (column_sum image_processing rows)
              + sint (column_sum machine_learning rows) + sint (column_sum deep_learning rows))"
    unfolding total_sum_def sint_sum_list by (simp add: add.assoc)
  also have "\<dots> = signed_take_bit 63 (cell_total rows)"
    using assms by (simp add: sint_column_sum cell_total_def)
  also have "\<dots> = cell_total rows"
    using assms(4) by (simp add: fits_int64_def signed_take_bit_int_eq_self)
  finally show ?thesis .
qed

lemma float_of_int64_rel:
  "\<exists>a. float_of_int64 w = Fin a \<and> \<bar>a - real_of_int (sint w)\<bar> \<le> \<bar>real_of_int (sint w)\<bar> / 2 ^ 53"
proof -
  have "real_of_int (sint w) = 0 \<or>
        (1 / 2 ^ 100 \<le> \<bar>real_of_int (sint w)\<bar> \<and> \<bar>real_of_int (sint w)\<bar> \<le> 2 ^ 100)"
  proof (cases "sint w = 0")
    case True
    then show ?thesis by simp
  next
    case False
    then have "1 \<le> \<bar>sint w\<bar>" by simp
    then have "1 \<le> real_of_int \<bar>sint w\<bar>" by (simp only: of_int_1_le_iff)
    then have l: "1 / 2 ^ 100 \<le> \<bar>real_of_int (sint w)\<bar>" by simp
    have "- (2 ^ 63) \<le> sint w" "sint w < 2 ^ 63"
      using sint_ge [of w] sint_lt [of w] by simp_all
    then have "\<bar>sint w\<bar> \<le> 2 ^ 63" by simp
    then have "real_of_int \<bar>sint w\<bar> \<le> real_of_int (2 ^ 63)" by (simp only: of_int_le_iff)
    then have "\<bar>real_of_int (sint w)\<bar> \<le> 2 ^ 100" by simp
    with l show ?thesis by simp
  qed
  from round64_rel [OF this] show ?thesis by (simp add: float_of_int64_def)
qed

declare of_int_sint [simp del]


lemma abs_times_100:
  fixes q z :: real
  shows "\<bar>q * 100 - 100 * z\<bar> = 100 * \<bar>q - z\<bar>"
proof -
  have "q * 100 - 100 * z = 100 * (q - z)" by (simp add: algebra_simps)
  moreover have "\<bar>100 * (q - z)\<bar> = \<bar>100\<bar> * \<bar>q - z\<bar>" by (rule abs_mult)
  ultimately show ?thesis by (simp only: abs_numeral)
qed

lemma percent_error:
  assumes T: "sint t \<noteq> 0"
  shows "\<exists>p. np_mul (true_divide a t) (Fin 100) = Fin p \<and>
           \<bar>p - 100 * (real_of_int (sint a) / real_of_int (sint t))\<bar>
             \<le> \<bar>100 * (real_of_int (sint a) / real_of_int (sint t))\<bar> / 2 ^ 50"
proof -
  define A where "A = real_of_int (sint a)"
  define Tr where "Tr = real_of_int (sint t)"
  have T0: "Tr \<noteq> 0" using T by (simp add: Tr_def)
  obtain a' where a': "float_of_int64 a = Fin a'" and ea: "\<bar>a' - A\<bar> \<le> \<bar>A\<bar> / 2 ^ 53"
    using float_of_int64_rel [of a] by (auto simp: A_def)
  obtain t' where t': "float_of_int64 t = Fin t'" and et: "\<bar>t' - Tr\<bar> \<le> \<bar>Tr\<bar> / 2 ^ 53"
    using float_of_int64_rel [of t] by (auto simp: Tr_def)
  have Tge: "1 \<le> \<bar>Tr\<bar>"
  proof -
    have "1 \<le> \<bar>sint t\<bar>" using T by simp
    then have "1 \<le> real_of_int \<bar>sint t\<bar>" by (simp only: of_int_1_le_iff)
    then show ?thesis by (simp add: Tr_def)
  qed
  have Tle: "\<bar>Tr\<bar> \<le> 2 ^ 63"
  proof -
    have "- (2 ^ 63) \<le> sint t" "sint t < 2 ^ 63" using sint_ge [of t] sint_lt [of t] by simp_all
    then have "\<bar>sint t\<bar> \<le> 2 ^ 63" by simp
    then have "real_of_int \<bar>sint t\<bar> \<le> real_of_int (2 ^ 63)" by (simp only: of_int_le_iff)
    then show ?thesis by (simp add: Tr_def)
  qed
  have Ale: "\<bar>A\<bar> \<le> 2 ^ 63"
  proof -
    have "- (2 ^ 63) \<le> sint a" "sint a < 2 ^ 63" using sint_ge [of a] sint_lt [of a] by simp_all
    then have "\<bar>sint a\<bar> \<le> 2 ^ 63" by simp
    then have "real_of_int \<bar>sint a\<bar> \<le> real_of_int (2 ^ 63)" by (simp only: of_int_le_iff)
    then show ?thesis by (simp add: A_def)
  qed
  from rel_half [OF et] have t1: "\<bar>Tr\<bar> / 2 \<le> \<bar>t'\<bar>" and t2: "\<bar>t'\<bar> \<le> 2 * \<bar>Tr\<bar>" by simp_all
  have tl: "1 / 2 \<le> \<bar>t'\<bar>" using t1 Tge by linarith
  have tu: "\<bar>t'\<bar> \<le> 2 ^ 64" using t2 Tle by simp
  have t0: "t' \<noteq> 0" using tl by auto
  have div: "true_divide a t = round64 (a' / t')"
    using t0 by (simp add: true_divide_def a' t')
  from rel_half [OF ea] have a1: "\<bar>A\<bar> / 2 \<le> \<bar>a'\<bar>" and a2: "\<bar>a'\<bar> \<le> 2 * \<bar>A\<bar>" by simp_all
  show ?thesis
  proof (cases "sint a = 0")
    case True
    then have "A = 0" by (simp add: A_def)
    then have "a' = 0" using a2 by simp
    then have "np_mul (true_divide a t) (Fin 100) = Fin 0"
      by (simp add: div round64_zero)
    then show ?thesis using True by simp
  next
    case False
    have Age: "1 \<le> \<bar>A\<bar>"
    proof -
      have "1 \<le> \<bar>sint a\<bar>" using False by simp
      then have "1 \<le> real_of_int \<bar>sint a\<bar>" by (simp only: of_int_1_le_iff)
      then show ?thesis by (simp add: A_def)
    qed
    have al: "1 / 2 \<le> \<bar>a'\<bar>" using a1 Age by linarith
    have au: "\<bar>a'\<bar> \<le> 2 ^ 64" using a2 Ale by simp
    define x where "x = a' / t'"
    have xabs: "\<bar>x\<bar> = \<bar>a'\<bar> / \<bar>t'\<bar>" by (simp add: x_def)
    have tpos: "0 < \<bar>t'\<bar>" using tl by linarith
    have xl: "1 / 2 ^ 65 \<le> \<bar>x\<bar>"
    proof -
      have "1 / 2 ^ 65 = (1 / 2) / (2 ^ 64 :: real)" by simp
      also have "\<dots> \<le> \<bar>a'\<bar> / 2 ^ 64" using al by (simp add: divide_right_mono)
      also have "\<dots> \<le> \<bar>a'\<bar> / \<bar>t'\<bar>" using tu tpos by (intro divide_left_mono mult_pos_pos) simp_all
      finally show ?thesis by (simp add: xabs)
    qed
    have xu: "\<bar>x\<bar> \<le> 2 ^ 65"
    proof -
      have "\<bar>a'\<bar> / \<bar>t'\<bar> \<le> 2 ^ 64 / \<bar>t'\<bar>" using au tpos by (simp add: divide_right_mono)
      also have "\<dots> \<le> 2 ^ 64 / (1 / 2)" using tl by (intro divide_left_mono mult_pos_pos tpos) simp_all
      also have "\<dots> = 2 ^ 65" by simp
      finally show ?thesis by (simp add: xabs)
    qed
    have xr: "x = 0 \<or> (1 / 2 ^ 100 \<le> \<bar>x\<bar> \<and> \<bar>x\<bar> \<le> 2 ^ 100)"
    proof -
      have "(1::real) / 2 ^ 100 \<le> 1 / 2 ^ 65" by simp
      moreover have "(2::real) ^ 65 \<le> 2 ^ 100" by simp
      ultimately show ?thesis using xl xu by linarith
    qed
    obtain q where q: "round64 x = Fin q" and eq: "\<bar>q - x\<bar> \<le> \<bar>x\<bar> / 2 ^ 53"
      using round64_rel [OF xr] by auto
    from rel_half [OF eq] have q1: "\<bar>x\<bar> / 2 \<le> \<bar>q\<bar>" and q2: "\<bar>q\<bar> \<le> 2 * \<bar>x\<bar>" by simp_all
    have yr: "q * 100 = 0 \<or> (1 / 2 ^ 100 \<le> \<bar>q * 100\<bar> \<and> \<bar>q * 100\<bar> \<le> 2 ^ 100)"
    proof -
      have "\<bar>q * 100\<bar> = 100 * \<bar>q\<bar>" by (simp add: abs_mult)
      moreover have "1 / 2 ^ 66 \<le> \<bar>q\<bar>" using q1 xl by simp
      moreover have "\<bar>q\<bar> \<le> 2 ^ 66" using q2 xu by simp
      moreover have "(1::real) / 2 ^ 100 \<le> 100 * (1 / 2 ^ 66)" by simp
      moreover have "100 * (2::real) ^ 66 \<le> 2 ^ 100" by simp
      ultimately show ?thesis by linarith
    qed
    obtain p where p: "round64 (q * 100) = Fin p" and ep: "\<bar>p - q * 100\<bar> \<le> \<bar>q * 100\<bar> / 2 ^ 53"
      using round64_rel [OF yr] by auto
    have val: "np_mul (true_divide a t) (Fin 100) = Fin p"
      by (simp add: div x_def [symmetric] q p)
    have e1: "\<bar>x - A / Tr\<bar> \<le> 4 / 2 ^ 53 * \<bar>A / Tr\<bar>"
      unfolding x_def using ea et T0 by (rule rel_div)
    have e2: "\<bar>q - A / Tr\<bar> \<le> (4 / 2 ^ 53 + 1 / 2 ^ 53 + (4 / 2 ^ 53) / 2 ^ 53) * \<bar>A / Tr\<bar>"
      using e1 eq by (rule rel_trans) simp
    have e3: "\<bar>q * 100 - 100 * (A / Tr)\<bar>
                \<le> (4 / 2 ^ 53 + 1 / 2 ^ 53 + (4 / 2 ^ 53) / 2 ^ 53) * \<bar>100 * (A / Tr)\<bar>"
    proof -
      have "\<bar>q * 100 - 100 * (A / Tr)\<bar> = 100 * \<bar>q - A / Tr\<bar>"
        by (rule abs_times_100)
      also have "\<dots> \<le> 100 * ((4 / 2 ^ 53 + 1 / 2 ^ 53 + (4 / 2 ^ 53) / 2 ^ 53) * \<bar>A / Tr\<bar>)"
        using e2 by simp
      also have "\<dots> = (4 / 2 ^ 53 + 1 / 2 ^ 53 + (4 / 2 ^ 53) / 2 ^ 53) * \<bar>100 * (A / Tr)\<bar>"
        by (simp add: abs_mult)
      finally show ?thesis .
    qed
    have e4: "\<bar>p - 100 * (A / Tr)\<bar>
                \<le> ((4 / 2 ^ 53 + 1 / 2 ^ 53 + (4 / 2 ^ 53) / 2 ^ 53) + 1 / 2 ^ 53
                     + (4 / 2 ^ 53 + 1 / 2 ^ 53 + (4 / 2 ^ 53) / 2 ^ 53) / 2 ^ 53) * \<bar>100 * (A / Tr)\<bar>"
      using e3 ep by (rule rel_trans) simp
    have "\<bar>p - 100 * (A / Tr)\<bar> \<le> (1 / 2 ^ 50) * \<bar>100 * (A / Tr)\<bar>"
      using e4 by (rule rel_weaken) simp
    then show ?thesis using val by (auto simp: A_def Tr_def)
  qed
qed

text \<open>The equations that evaluate the rounding and the statistics at concrete values.\<close>

lemmas float_eval = round64_def binade_def rne_def power_int_def Let_def compute_bitlen power_one_over

lemmas stats_eval = print_stats_def select_years_def percent_def column_sum_def total_sum_def
  true_divide_def float_of_int64_def

section \<open>Properties of techniques.py\<close>

lemma add_techs_zero [simp]: "add_techs zero_techs r = r"
  by (simp add: add_techs_def zero_techs_def)

lemma group_add_keys: "fst ` set (group_add y r t) = insert y (fst ` set t)"
proof (induction t)
  case Nil
  show ?case by simp
next
  case (Cons a t)
  obtain k s where a: "a = (k, s)" by (cases a)
  show ?case using Cons.IH by (auto simp: a)
qed

lemma group_add_sorted:
  "sorted_wrt (<) (map fst t) \<Longrightarrow> sorted_wrt (<) (map fst (group_add y r t))"
proof (induction t)
  case Nil
  show ?case by simp
next
  case (Cons a t)
  obtain k s where a: "a = (k, s)" by (cases a)
  from Cons.prems have st: "sorted_wrt (<) (map fst t)" and lt: "\<forall>x\<in>fst ` set t. k < x"
    by (auto simp: a)
  have keys: "fst ` set (group_add y r t) = insert y (fst ` set t)" by (rule group_add_keys)
  show ?case
  proof (cases "y = k")
    case True
    then show ?thesis using Cons.prems by (simp add: a)
  next
    case False
    show ?thesis
    proof (cases "y < k")
      case True
      then show ?thesis using Cons.prems \<open>y \<noteq> k\<close> lt by (auto simp: a)
    next
      case False
      with \<open>y \<noteq> k\<close> have "k < y" by simp
      then show ?thesis using Cons.IH [OF st] lt keys \<open>y \<noteq> k\<close> False by (simp add: a)
    qed
  qed
qed

lemma map_of_None_above:
  "\<forall>x\<in>fst ` set t. (k::int) < x \<Longrightarrow> y \<le> k \<Longrightarrow> map_of t y = None"
  by (induction t) (auto)

lemma group_val_Nil: "group_val [] k = zero_techs"
  by (simp add: group_val_def)

lemma group_val_Cons: "group_val ((j, s) # t) k = (if k = j then s else group_val t k)"
  by (simp add: group_val_def)

lemma group_val_above:
  "\<forall>x\<in>fst ` set t. (k::int) < x \<Longrightarrow> y \<le> k \<Longrightarrow> group_val t y = zero_techs"
  by (simp add: group_val_def map_of_None_above)

lemma group_add_val:
  "sorted_wrt (<) (map fst t) \<Longrightarrow>
   group_val (group_add y r t) k = (if k = y then add_techs (group_val t y) r else group_val t k)"
proof (induction t)
  case Nil
  show ?case by (simp add: group_val_Nil group_val_Cons)
next
  case (Cons a t)
  obtain j s where a: "a = (j, s)" by (cases a)
  from Cons.prems have st: "sorted_wrt (<) (map fst t)" and lt: "\<forall>x\<in>fst ` set t. j < x"
    by (auto simp: a)
  note IH = Cons.IH [OF st]
  show ?case
  proof (cases "y = j")
    case True
    then show ?thesis by (simp add: a group_val_Cons)
  next
    case False
    show ?thesis
    proof (cases "y < j")
      case True
      then have "group_val t y = zero_techs" using group_val_above [OF lt, of y] by simp
      then show ?thesis using True False by (simp add: a group_val_Cons)
    next
      case False
      then show ?thesis using IH \<open>y \<noteq> j\<close>
        by (cases "k = y") (simp_all add: a group_val_Cons)
    qed
  qed
qed

lemma foldl_group_add:
  "sorted_wrt (<) (map fst t) \<Longrightarrow>
   sorted_wrt (<) (map fst (foldl (\<lambda>groups p. group_add (Year p) (techs_of p) groups) t df)) \<and>
   fst ` set (foldl (\<lambda>groups p. group_add (Year p) (techs_of p) groups) t df) = fst ` set t \<union> Year ` set df \<and>
   (\<forall>k. group_val (foldl (\<lambda>groups p. group_add (Year p) (techs_of p) groups) t df) k
        = add_techs (group_val t k) (sum_techs (filter (\<lambda>p. Year p = k) df)))"
proof (induction df arbitrary: t)
  case Nil
  then show ?case by (simp add: sum_techs_def add_techs_def)
next
  case (Cons p df)
  have s: "sorted_wrt (<) (map fst (group_add (Year p) (techs_of p) t))"
    using Cons.prems by (rule group_add_sorted)
  show ?case using Cons.IH [OF s] Cons.prems
    by (auto simp: group_add_keys group_add_val sum_techs_def add_techs_def techs_of_def)
qed

lemma format_df_invariant:
  "sorted_wrt (<) (map fst (format_df df)) \<and>
   fst ` set (format_df df) = Year ` set df \<and>
   (\<forall>k. group_val (format_df df) k = sum_techs (filter (\<lambda>p. Year p = k) df))"
  using foldl_group_add [of "[]" df]
  by (simp add: format_df_def groupby_sum_def group_val_Nil)

lemma sorted_wrt_less_distinct: "sorted_wrt (<) (xs::int list) \<Longrightarrow> distinct xs"
  by (induction xs) auto

lemma group_val_member:
  "distinct (map fst t) \<Longrightarrow> (y, r) \<in> set t \<Longrightarrow> group_val t y = r"
  by (simp add: group_val_def)


text \<open>
  Claim C5. For every input table, the result of \<open>format_df\<close> has one row per distinct year
  of the input and no other row (a year without a publication is absent, nothing is
  filled with zeros), and in the row of a year each technique column holds the sum of
  that raw column over the input rows of that year. The sum is the \<^verbatim>\<open>int64\<close> sum that
  pandas computes, and it is the exact sum of the values whenever that is in the range of
  \<^verbatim>\<open>int64\<close>.
\<close>

theorem format_df_sums_by_year:
  "distinct (map fst (format_df df)) \<and>
   set (map fst (format_df df)) = Year ` set df \<and>
   (\<forall>(y, r) \<in> set (format_df df).
      image_processing r = sum_list (map Image_Processing (filter (\<lambda>p. Year p = y) df)) \<and>
      machine_learning r = sum_list (map Machine_Learning (filter (\<lambda>p. Year p = y) df)) \<and>
      deep_learning r = sum_list (map Deep_Learning (filter (\<lambda>p. Year p = y) df)) \<and>
      (fits_int64 (\<Sum>p\<leftarrow>filter (\<lambda>p. Year p = y) df. sint (Image_Processing p)) \<longrightarrow>
         sint (image_processing r) = (\<Sum>p\<leftarrow>filter (\<lambda>p. Year p = y) df. sint (Image_Processing p))) \<and>
      (fits_int64 (\<Sum>p\<leftarrow>filter (\<lambda>p. Year p = y) df. sint (Machine_Learning p)) \<longrightarrow>
         sint (machine_learning r) = (\<Sum>p\<leftarrow>filter (\<lambda>p. Year p = y) df. sint (Machine_Learning p))) \<and>
      (fits_int64 (\<Sum>p\<leftarrow>filter (\<lambda>p. Year p = y) df. sint (Deep_Learning p)) \<longrightarrow>
         sint (deep_learning r) = (\<Sum>p\<leftarrow>filter (\<lambda>p. Year p = y) df. sint (Deep_Learning p))))"
proof -
  note inv = format_df_invariant [of df]
  have d: "distinct (map fst (format_df df))"
    using inv by (simp add: sorted_wrt_less_distinct)
  have exact: "fits_int64 (\<Sum>p\<leftarrow>ps. sint (col p)) \<longrightarrow>
                 sint (sum_list (map col ps)) = (\<Sum>p\<leftarrow>ps. sint (col p))"
    for col :: "publication \<Rightarrow> int64" and ps
    using sint_sum_list_fits [of "map col ps"] by (simp add: comp_def)
  have vals: "image_processing r = sum_list (map Image_Processing (filter (\<lambda>p. Year p = y) df)) \<and>
      machine_learning r = sum_list (map Machine_Learning (filter (\<lambda>p. Year p = y) df)) \<and>
      deep_learning r = sum_list (map Deep_Learning (filter (\<lambda>p. Year p = y) df))"
    if "(y, r) \<in> set (format_df df)" for y r
  proof -
    have "r = sum_techs (filter (\<lambda>p. Year p = y) df)"
      using inv group_val_member [OF d that] by simp
    then show ?thesis by (simp add: sum_techs_def)
  qed
  have keys: "set (map fst (format_df df)) = Year ` set df"
    using inv by simp
  have all: "image_processing r = sum_list (map Image_Processing (filter (\<lambda>p. Year p = y) df)) \<and>
      machine_learning r = sum_list (map Machine_Learning (filter (\<lambda>p. Year p = y) df)) \<and>
      deep_learning r = sum_list (map Deep_Learning (filter (\<lambda>p. Year p = y) df)) \<and>
      (fits_int64 (\<Sum>p\<leftarrow>filter (\<lambda>p. Year p = y) df. sint (Image_Processing p)) \<longrightarrow>
         sint (image_processing r) = (\<Sum>p\<leftarrow>filter (\<lambda>p. Year p = y) df. sint (Image_Processing p))) \<and>
      (fits_int64 (\<Sum>p\<leftarrow>filter (\<lambda>p. Year p = y) df. sint (Machine_Learning p)) \<longrightarrow>
         sint (machine_learning r) = (\<Sum>p\<leftarrow>filter (\<lambda>p. Year p = y) df. sint (Machine_Learning p))) \<and>
      (fits_int64 (\<Sum>p\<leftarrow>filter (\<lambda>p. Year p = y) df. sint (Deep_Learning p)) \<longrightarrow>
         sint (deep_learning r) = (\<Sum>p\<leftarrow>filter (\<lambda>p. Year p = y) df. sint (Deep_Learning p)))"
    if "(y, r) \<in> set (format_df df)" for y r
    using vals [OF that] exact [of Image_Processing "filter (\<lambda>p. Year p = y) df"]
      exact [of Machine_Learning "filter (\<lambda>p. Year p = y) df"]
      exact [of Deep_Learning "filter (\<lambda>p. Year p = y) df"]
    by simp
  from d keys all show ?thesis by blast
qed

text \<open>
  The statement at three rows, two of them of the year 2020; and the sum of two values of
  \<open>2 ^ 62\<close>, which wraps around.
\<close>

theorem format_df_sums_by_year_witness:
  "format_df [\<lparr>Year = 2021, Image_Processing = 0, Machine_Learning = 1, Deep_Learning = 1\<rparr>,
              \<lparr>Year = 2020, Image_Processing = 1, Machine_Learning = 0, Deep_Learning = 1\<rparr>,
              \<lparr>Year = 2020, Image_Processing = 0, Machine_Learning = 1, Deep_Learning = 1\<rparr>]
     = [(2020, \<lparr>image_processing = 1, machine_learning = 1, deep_learning = 2\<rparr>),
        (2021, \<lparr>image_processing = 0, machine_learning = 1, deep_learning = 1\<rparr>)] \<and>
   sint (2 :: int64)
     = (\<Sum>p\<leftarrow>filter (\<lambda>p. Year p = 2020)
             [\<lparr>Year = 2021, Image_Processing = 0, Machine_Learning = 1, Deep_Learning = 1\<rparr>,
              \<lparr>Year = 2020, Image_Processing = 1, Machine_Learning = 0, Deep_Learning = 1\<rparr>,
              \<lparr>Year = 2020, Image_Processing = 0, Machine_Learning = 1, Deep_Learning = 1\<rparr>].
           sint (Deep_Learning p)) \<and>
   format_df [\<lparr>Year = 2020, Image_Processing = 2 ^ 62, Machine_Learning = 0, Deep_Learning = 0\<rparr>,
              \<lparr>Year = 2020, Image_Processing = 2 ^ 62, Machine_Learning = 0, Deep_Learning = 0\<rparr>]
     = [(2020, \<lparr>image_processing = - (2 ^ 63), machine_learning = 0, deep_learning = 0\<rparr>)]"
proof -
  let ?df = "[\<lparr>Year = 2021, Image_Processing = 0, Machine_Learning = 1, Deep_Learning = 1\<rparr>,
              \<lparr>Year = 2020, Image_Processing = 1, Machine_Learning = 0, Deep_Learning = 1\<rparr>,
              \<lparr>Year = 2020, Image_Processing = 0, Machine_Learning = 1, Deep_Learning = (1::int64)\<rparr>]"
  have f: "format_df ?df
     = [(2020, \<lparr>image_processing = 1, machine_learning = 1, deep_learning = 2\<rparr>),
        (2021, \<lparr>image_processing = 0, machine_learning = 1, deep_learning = 1\<rparr>)]"
    by (simp add: format_df_def groupby_sum_def techs_of_def add_techs_def)
  have m: "(2020, \<lparr>image_processing = 1, machine_learning = 1, deep_learning = 2\<rparr>)
             \<in> set (format_df ?df)"
    by (simp add: f)
  have s: "(\<Sum>p\<leftarrow>filter (\<lambda>p. Year p = 2020) ?df. sint (Deep_Learning p)) = 2" by simp
  have fit: "fits_int64 (\<Sum>p\<leftarrow>filter (\<lambda>p. Year p = 2020) ?df. sint (Deep_Learning p))"
    unfolding s by (simp add: fits_int64_def)
  from format_df_sums_by_year [of ?df] m fit
  have "sint (2 :: int64) = (\<Sum>p\<leftarrow>filter (\<lambda>p. Year p = 2020) ?df. sint (Deep_Learning p))"
    by fastforce
  moreover have "format_df [\<lparr>Year = 2020, Image_Processing = 2 ^ 62, Machine_Learning = 0, Deep_Learning = 0\<rparr>,
              \<lparr>Year = 2020, Image_Processing = 2 ^ 62, Machine_Learning = 0, Deep_Learning = 0\<rparr>]
     = [(2020, \<lparr>image_processing = - (2 ^ 63), machine_learning = 0, deep_learning = 0\<rparr>)]"
    by (simp add: format_df_def groupby_sum_def techs_of_def add_techs_def)
  ultimately show ?thesis using f by simp
qed

text \<open>
  Claim C7. The two-row example: years 2020 and 2021 with \<^verbatim>\<open>Image_Processing\<close> 1, 0,
  \<^verbatim>\<open>Machine_Learning\<close> 0, 1 and \<^verbatim>\<open>Deep_Learning\<close> 1, 1 aggregate to the table
  2020: (1, 0, 1), 2021: (0, 1, 1); the column sums are 1, 1 and 2, and the percentages
  printed are 25, 25 and 50.
\<close>

theorem end_to_end_example:
  "format_df [\<lparr>Year = 2020, Image_Processing = 1, Machine_Learning = 0, Deep_Learning = 1\<rparr>,
              \<lparr>Year = 2021, Image_Processing = 0, Machine_Learning = 1, Deep_Learning = 1\<rparr>]
     = [(2020, \<lparr>image_processing = 1, machine_learning = 0, deep_learning = 1\<rparr>),
        (2021, \<lparr>image_processing = 0, machine_learning = 1, deep_learning = 1\<rparr>)] \<and>
   column_sum image_processing
     [(2020, \<lparr>image_processing = 1, machine_learning = 0, deep_learning = 1\<rparr>),
      (2021, \<lparr>image_processing = 0, machine_learning = 1, deep_learning = 1\<rparr>)] = 1 \<and>
   column_sum machine_learning
     [(2020, \<lparr>image_processing = 1, machine_learning = 0, deep_learning = 1\<rparr>),
      (2021, \<lparr>image_processing = 0, machine_learning = 1, deep_learning = 1\<rparr>)] = 1 \<and>
   column_sum deep_learning
     [(2020, \<lparr>image_processing = 1, machine_learning = 0, deep_learning = 1\<rparr>),
      (2021, \<lparr>image_processing = 0, machine_learning = 1, deep_learning = 1\<rparr>)] = 2 \<and>
   print_stats
     [(2020, \<lparr>image_processing = 1, machine_learning = 0, deep_learning = 1\<rparr>),
      (2021, \<lparr>image_processing = 0, machine_learning = 1, deep_learning = 1\<rparr>)] None
     = Inr \<lparr>stats_after = None, percent_ip = Fin 25, percent_ml = Fin 25, percent_dl = Fin 50\<rparr>"
  by (simp add: format_df_def groupby_sum_def techs_of_def add_techs_def stats_eval float_eval)

lemma select_years_excludes_all:
  "\<forall>(k, r) \<in> set df. k < Y \<Longrightarrow> select_years df (Some Y) = []"
  by (induction df) (auto simp: select_years_def)

text \<open>
  Claim C6. Let the included rows be all rows of the table, or those at or after the
  year of the filter. When the exact column sums and their total are in the range of
  \<^verbatim>\<open>int64\<close> and the total is positive, \<^verbatim>\<open>print_stats\<close> prints three finite percentages,
  and each is the column sum of its technique divided by the total cell-sum, times 100,
  up to a relative error of \<open>2 ^ -50\<close> from the four roundings of binary64. The three
  printed values therefore add up to 100 up to \<open>2 ^ -50\<close> times the sum of the exact
  percentages in absolute value, which is \<open>100 / 2 ^ 50\<close> when no column sum is negative.
  This holds for every year filter, so in particular without one.
\<close>

theorem percentages_share_of_total:
  assumes rows: "rows = (case after of None \<Rightarrow> df | Some Y \<Rightarrow> filter (\<lambda>(k, r). Y \<le> k) df)"
    and fits: "fits_int64 (cell_sum image_processing rows)"
              "fits_int64 (cell_sum machine_learning rows)"
              "fits_int64 (cell_sum deep_learning rows)"
              "fits_int64 (cell_total rows)"
    and pos: "0 < cell_total rows"
  shows "\<exists>p_ip p_ml p_dl.
           print_stats df after
             = Inr \<lparr>stats_after = after, percent_ip = Fin p_ip, percent_ml = Fin p_ml,
                    percent_dl = Fin p_dl\<rparr> \<and>
           \<bar>p_ip - 100 * real_of_int (cell_sum image_processing rows) / real_of_int (cell_total rows)\<bar>
             \<le> (100 * \<bar>real_of_int (cell_sum image_processing rows)\<bar> / real_of_int (cell_total rows)) / 2 ^ 50 \<and>
           \<bar>p_ml - 100 * real_of_int (cell_sum machine_learning rows) / real_of_int (cell_total rows)\<bar>
             \<le> (100 * \<bar>real_of_int (cell_sum machine_learning rows)\<bar> / real_of_int (cell_total rows)) / 2 ^ 50 \<and>
           \<bar>p_dl - 100 * real_of_int (cell_sum deep_learning rows) / real_of_int (cell_total rows)\<bar>
             \<le> (100 * \<bar>real_of_int (cell_sum deep_learning rows)\<bar> / real_of_int (cell_total rows)) / 2 ^ 50 \<and>
           \<bar>p_ip + p_ml + p_dl - 100\<bar>
             \<le> (100 * (\<bar>real_of_int (cell_sum image_processing rows)\<bar>
                        + \<bar>real_of_int (cell_sum machine_learning rows)\<bar>
                        + \<bar>real_of_int (cell_sum deep_learning rows)\<bar>) / real_of_int (cell_total rows)) / 2 ^ 50 \<and>
           (0 \<le> cell_sum image_processing rows \<and> 0 \<le> cell_sum machine_learning rows \<and>
            0 \<le> cell_sum deep_learning rows \<longrightarrow> \<bar>p_ip + p_ml + p_dl - 100\<bar> \<le> 100 / 2 ^ 50)"
proof -
  have sel: "select_years df after = rows" by (simp add: rows select_years_def)
  have ne: "df \<noteq> []"
  proof
    assume "df = []"
    then have "rows = []" by (simp add: rows split: option.splits)
    then show False using pos by (simp add: cell_total_def cell_sum_def)
  qed
  define T where "T = real_of_int (cell_total rows)"
  have Tpos: "0 < T" using pos by (simp add: T_def)
  have st: "sint (total_sum rows) = cell_total rows" using fits by (rule sint_total_sum)
  then have t0: "sint (total_sum rows) \<noteq> 0" using pos by simp
  have sc: "sint (column_sum col rows) = cell_sum col rows" if "fits_int64 (cell_sum col rows)" for col
    using that by (rule sint_column_sum)
  have one: "\<exists>p. percent col rows = Fin p \<and>
               \<bar>p - 100 * real_of_int (cell_sum col rows) / T\<bar>
                 \<le> (100 * \<bar>real_of_int (cell_sum col rows)\<bar> / T) / 2 ^ 50"
    if f: "fits_int64 (cell_sum col rows)" for col
  proof -
    from percent_error [OF t0, of "column_sum col rows"] obtain p
      where p: "percent col rows = Fin p"
        and e: "\<bar>p - 100 * (real_of_int (cell_sum col rows) / T)\<bar>
                  \<le> \<bar>100 * (real_of_int (cell_sum col rows) / T)\<bar> / 2 ^ 50"
      by (auto simp: percent_def sc [OF f] st T_def)
    have "\<bar>100 * (real_of_int (cell_sum col rows) / T)\<bar> = 100 * \<bar>real_of_int (cell_sum col rows)\<bar> / T"
      using Tpos by (simp add: abs_mult)
    with p e show ?thesis by auto
  qed
  obtain p_ip where ip: "percent image_processing rows = Fin p_ip"
    and eip: "\<bar>p_ip - 100 * real_of_int (cell_sum image_processing rows) / T\<bar>
                 \<le> (100 * \<bar>real_of_int (cell_sum image_processing rows)\<bar> / T) / 2 ^ 50"
    using one [OF fits(1)] by blast
  obtain p_ml where ml: "percent machine_learning rows = Fin p_ml"
    and eml: "\<bar>p_ml - 100 * real_of_int (cell_sum machine_learning rows) / T\<bar>
                 \<le> (100 * \<bar>real_of_int (cell_sum machine_learning rows)\<bar> / T) / 2 ^ 50"
    using one [OF fits(2)] by blast
  obtain p_dl where dl: "percent deep_learning rows = Fin p_dl"
    and edl: "\<bar>p_dl - 100 * real_of_int (cell_sum deep_learning rows) / T\<bar>
                 \<le> (100 * \<bar>real_of_int (cell_sum deep_learning rows)\<bar> / T) / 2 ^ 50"
    using one [OF fits(3)] by blast
  define a where "a = real_of_int (cell_sum image_processing rows)"
  define b where "b = real_of_int (cell_sum machine_learning rows)"
  define c where "c = real_of_int (cell_sum deep_learning rows)"
  have Tabc: "T = a + b + c" by (simp add: T_def a_def b_def c_def cell_total_def)
  have hundred: "100 * a / T + 100 * b / T + 100 * c / T = 100"
  proof -
    have "100 * a / T + 100 * b / T + 100 * c / T = 100 * ((a + b + c) / T)"
      by (simp add: add_divide_distrib distrib_left)
    also have "(a + b + c) / T = 1" using Tpos by (simp add: Tabc [symmetric])
    finally show ?thesis by simp
  qed
  have "\<bar>p_ip + p_ml + p_dl - 100\<bar>
          = \<bar>(p_ip - 100 * a / T) + (p_ml - 100 * b / T) + (p_dl - 100 * c / T)\<bar>"
    using hundred by (simp add: algebra_simps)
  also have "\<dots> \<le> \<bar>p_ip - 100 * a / T\<bar> + \<bar>p_ml - 100 * b / T\<bar> + \<bar>p_dl - 100 * c / T\<bar>"
    by linarith
  also have "\<dots> \<le> (100 * \<bar>a\<bar> / T) / 2 ^ 50 + (100 * \<bar>b\<bar> / T) / 2 ^ 50 + (100 * \<bar>c\<bar> / T) / 2 ^ 50"
    using eip eml edl by (simp add: a_def b_def c_def)
  also have "\<dots> = (100 * (\<bar>a\<bar> + \<bar>b\<bar> + \<bar>c\<bar>) / T) / 2 ^ 50"
    by (simp add: add_divide_distrib distrib_left)
  finally have sum: "\<bar>p_ip + p_ml + p_dl - 100\<bar> \<le> (100 * (\<bar>a\<bar> + \<bar>b\<bar> + \<bar>c\<bar>) / T) / 2 ^ 50" .
  have nonneg: "\<bar>p_ip + p_ml + p_dl - 100\<bar> \<le> 100 / 2 ^ 50"
    if "0 \<le> cell_sum image_processing rows \<and> 0 \<le> cell_sum machine_learning rows \<and>
        0 \<le> cell_sum deep_learning rows"
  proof -
    from that have abc: "\<bar>a\<bar> + \<bar>b\<bar> + \<bar>c\<bar> = T" by (simp add: a_def b_def c_def Tabc)
    have "100 * T / T = 100" using Tpos by simp
    then show ?thesis using sum unfolding abc by (simp only:)
  qed
  have val: "print_stats df after
             = Inr \<lparr>stats_after = after, percent_ip = Fin p_ip, percent_ml = Fin p_ml,
                    percent_dl = Fin p_dl\<rparr>"
    using ne by (simp add: print_stats_def sel Let_def ip ml dl)
  show ?thesis
    using val eip eml edl sum nonneg unfolding T_def a_def b_def c_def by blast
qed

text \<open>
  The statement at a table with one count of each technique: each percentage is printed
  as 33.33333333333333, and the three add up to \<open>100 - 2 ^ -46\<close>.
\<close>

theorem percentages_share_of_total_witness:
  "print_stats [(2020, \<lparr>image_processing = 1, machine_learning = 1, deep_learning = 1\<rparr>)] None
     = Inr \<lparr>stats_after = None,
            percent_ip = Fin (2345624805922133 / 70368744177664),
            percent_ml = Fin (2345624805922133 / 70368744177664),
            percent_dl = Fin (2345624805922133 / 70368744177664)\<rparr> \<and>
   \<bar>2345624805922133 / 70368744177664 + 2345624805922133 / 70368744177664
      + 2345624805922133 / 70368744177664 - (100::real)\<bar> \<le> 100 / 2 ^ 50"
proof -
  let ?rows = "[(2020::int, \<lparr>image_processing = 1, machine_learning = 1, deep_learning = (1::int64)\<rparr>)]"
  have v: "print_stats ?rows None
     = Inr \<lparr>stats_after = None,
            percent_ip = Fin (2345624805922133 / 70368744177664),
            percent_ml = Fin (2345624805922133 / 70368744177664),
            percent_dl = Fin (2345624805922133 / 70368744177664)\<rparr>"
    by (simp add: stats_eval float_eval)
  have r: "?rows = (case None of None \<Rightarrow> ?rows | Some Y \<Rightarrow> filter (\<lambda>(k, r). Y \<le> k) ?rows)"
    by simp
  have c: "cell_sum image_processing ?rows = 1" "cell_sum machine_learning ?rows = 1"
    "cell_sum deep_learning ?rows = 1" "cell_total ?rows = 3"
    by (simp_all add: cell_sum_def cell_total_def)
  have f: "fits_int64 (cell_sum image_processing ?rows)" "fits_int64 (cell_sum machine_learning ?rows)"
    "fits_int64 (cell_sum deep_learning ?rows)" "fits_int64 (cell_total ?rows)"
    unfolding c by (simp_all add: fits_int64_def)
  have p: "0 < cell_total ?rows" unfolding c by simp
  from percentages_share_of_total [OF r f p] obtain p_ip p_ml p_dl
    where s: "print_stats ?rows None
             = Inr \<lparr>stats_after = None, percent_ip = Fin p_ip, percent_ml = Fin p_ml,
                    percent_dl = Fin p_dl\<rparr>"
      and b: "0 \<le> cell_sum image_processing ?rows \<and> 0 \<le> cell_sum machine_learning ?rows \<and>
            0 \<le> cell_sum deep_learning ?rows \<longrightarrow> \<bar>p_ip + p_ml + p_dl - 100\<bar> \<le> 100 / 2 ^ 50"
    by blast
  from s v have "p_ip = 2345624805922133 / 70368744177664" "p_ml = 2345624805922133 / 70368744177664"
    "p_dl = 2345624805922133 / 70368744177664" by simp_all
  with b c have bnd: "\<bar>2345624805922133 / 70368744177664 + 2345624805922133 / 70368744177664
      + 2345624805922133 / 70368744177664 - (100::real)\<bar> \<le> 100 / 2 ^ 50" by simp
  from v bnd show ?thesis by (rule conjI)
qed

text \<open>
  Claim C10. When the table is empty, or the year filter leaves no row, no row is included
  and the total cell-sum that the percentages are divided by is zero. \<^verbatim>\<open>print_stats\<close> has
  no guard and no error of its own: it carries out the division \<^verbatim>\<open>0 / 0\<close>. On a table
  with rows that the filter has emptied the operands are NumPy integers, and \<^verbatim>\<open>nan\<close> is
  printed three times; on the table without rows they are Python integers, and the
  division raises \<^verbatim>\<open>ZeroDivisionError\<close>.
\<close>

theorem empty_selection_divides_by_zero:
  assumes "df = [] \<or> (after = Some Y \<and> (\<forall>(k, r) \<in> set df. k < Y))"
  shows "(case after of None \<Rightarrow> df | Some Y \<Rightarrow> filter (\<lambda>(k, r). Y \<le> k) df) = [] \<and>
         total_sum (select_years df after) = 0 \<and>
         (df = [] \<longrightarrow> print_stats df after = Inl ZeroDivisionError) \<and>
         (df \<noteq> [] \<longrightarrow>
            print_stats df after
              = Inr \<lparr>stats_after = after, percent_ip = NaN, percent_ml = NaN, percent_dl = NaN\<rparr>)"
proof -
  have e: "select_years df after = []"
    using assms select_years_excludes_all [of df Y]
    by (auto simp: select_years_def split: option.splits)
  then have c: "(case after of None \<Rightarrow> df | Some Y \<Rightarrow> filter (\<lambda>(k, r). Y \<le> k) df) = []"
    by (simp add: select_years_def)
  have z: "float_of_int64 0 = Fin 0" by (simp add: float_of_int64_def round64_def)
  have n: "percent col [] = NaN" for col
    by (simp add: percent_def column_sum_def total_sum_def true_divide_def z)
  from c e n show ?thesis
    by (simp add: print_stats_def total_sum_def column_sum_def)
qed

text \<open>
  The statement at a table whose only year, 2019, is before the filter year 2020, and at
  the table without rows.
\<close>

theorem empty_selection_divides_by_zero_witness:
  "print_stats [(2019, \<lparr>image_processing = 1, machine_learning = 0, deep_learning = 1\<rparr>)] (Some 2020)
     = Inr \<lparr>stats_after = Some 2020, percent_ip = NaN, percent_ml = NaN, percent_dl = NaN\<rparr> \<and>
   total_sum (select_years
      [(2019, \<lparr>image_processing = 1, machine_learning = 0, deep_learning = 1\<rparr>)] (Some 2020)) = 0 \<and>
   print_stats [] None = Inl ZeroDivisionError"
  using empty_selection_divides_by_zero
    [of "[(2019, \<lparr>image_processing = 1, machine_learning = 0, deep_learning = 1\<rparr>)]" "Some 2020" 2020]
    empty_selection_divides_by_zero [of "[]" None 0]
  by simp

lemma format_df_nonempty: "csv \<noteq> [] \<Longrightarrow> format_df csv \<noteq> []"
proof
  assume "csv \<noteq> []" "format_df csv = []"
  moreover have "fst ` set (format_df csv) = Year ` set csv"
    using format_df_invariant [of csv] by simp
  ultimately show False by simp
qed

text \<open>
  Claim C1 says that \<^verbatim>\<open>after_year_only = Y\<close> removes the years below \<open>Y\<close> from the chart
  data as well as from the percentages. \<^verbatim>\<open>main\<close> draws the chart from the whole table and
  hands the year to \<^verbatim>\<open>print_stats\<close> only (the option's help text reads "Only show
  statistics after this year"): with the filter year 2020, the year 2019 is still in the
  chart.
\<close>

theorem year_filter_chart_counterexample:
  "main_techniques
      \<lparr>after_year_only = Some 2020, no_print_stats = False, no_show_legend = False,
       legend_title = ''Techniques'', title = None, xlabel = ''Year'',
       ylabel = ''Number of Papers''\<rparr>
      [\<lparr>Year = 2019, Image_Processing = 1, Machine_Learning = 0, Deep_Learning = 0\<rparr>,
       \<lparr>Year = 2020, Image_Processing = 0, Machine_Learning = 1, Deep_Learning = 1\<rparr>]
    = Inr (\<lparr>chart_data = [(2019, \<lparr>image_processing = 1, machine_learning = 0, deep_learning = 0\<rparr>),
                            (2020, \<lparr>image_processing = 0, machine_learning = 1, deep_learning = 1\<rparr>)],
            chart_xlabel = ''Year'', chart_ylabel = ''Number of Papers'',
            chart_legend_title = ''Techniques'', chart_title = None\<rparr>,
           Some \<lparr>stats_after = Some 2020, percent_ip = Fin 0, percent_ml = Fin 50,
                 percent_dl = Fin 50\<rparr>) \<and>
   (2019::int) < 2020"
  by (simp add: main_techniques_def generate_stacked_barchart_def format_df_def groupby_sum_def
        techs_of_def add_techs_def stats_eval float_eval)

text \<open>
  Claim C1, amended. For a CSV with at least one row, with \<^verbatim>\<open>after_year_only = Y\<close> and the
  statistics not switched off, the run succeeds; the percentages are those of exactly
  the rows of the aggregated table whose year is at or after \<open>Y\<close>, and the chart data is
  the whole aggregated table, with every year of the input.
\<close>

theorem year_filter_restricts_stats_only:
  assumes "csv \<noteq> []" and "after_year_only args = Some Y" and "\<not> no_print_stats args"
  shows "\<exists>chart s.
           main_techniques args csv = Inr (chart, Some s) \<and>
           chart_data chart = format_df csv \<and>
           fst ` set (chart_data chart) = Year ` set csv \<and>
           stats_after s = Some Y \<and>
           percent_ip s = percent image_processing (filter (\<lambda>(k, r). Y \<le> k) (format_df csv)) \<and>
           percent_ml s = percent machine_learning (filter (\<lambda>(k, r). Y \<le> k) (format_df csv)) \<and>
           percent_dl s = percent deep_learning (filter (\<lambda>(k, r). Y \<le> k) (format_df csv))"
proof -
  have ne: "format_df csv \<noteq> []" using assms(1) by (rule format_df_nonempty)
  have y: "fst ` set (format_df csv) = Year ` set csv"
    using format_df_invariant [of csv] by simp
  let ?chart = "\<lparr>chart_data = format_df csv, chart_xlabel = xlabel args,
                  chart_ylabel = ylabel args, chart_legend_title = legend_title args,
                  chart_title = title args\<rparr>"
  let ?rows = "filter (\<lambda>(k, r). Y \<le> k) (format_df csv)"
  let ?s = "\<lparr>stats_after = Some Y, percent_ip = percent image_processing ?rows,
              percent_ml = percent machine_learning ?rows,
              percent_dl = percent deep_learning ?rows\<rparr>"
  have "main_techniques args csv = Inr (?chart, Some ?s)"
    using ne assms(2,3)
    by (simp add: main_techniques_def generate_stacked_barchart_def print_stats_def
          select_years_def Let_def)
  then show ?thesis using y by simp
qed

text \<open>
  The statement at the input of the counterexample: 2019 is charted, not counted. A CSV
  without rows ends the run in \<^verbatim>\<open>df.plot\<close>.
\<close>

theorem year_filter_restricts_stats_only_witness:
  "(\<exists>chart s.
      main_techniques
        \<lparr>after_year_only = Some 2020, no_print_stats = False, no_show_legend = False,
         legend_title = ''Techniques'', title = None, xlabel = ''Year'',
         ylabel = ''Number of Papers''\<rparr>
        [\<lparr>Year = 2019, Image_Processing = 1, Machine_Learning = 0, Deep_Learning = 0\<rparr>,
         \<lparr>Year = 2020, Image_Processing = 0, Machine_Learning = 1, Deep_Learning = 1\<rparr>]
        = Inr (chart, Some s) \<and>
      fst ` set (chart_data chart) = {2019, 2020} \<and>
      percent_ip s = Fin 0 \<and> percent_ml s = Fin 50 \<and> percent_dl s = Fin 50) \<and>
   main_techniques
        \<lparr>after_year_only = Some 2020, no_print_stats = False, no_show_legend = False,
         legend_title = ''Techniques'', title = None, xlabel = ''Year'',
         ylabel = ''Number of Papers''\<rparr> []
     = Inl NoNumericDataToPlot"
proof -
  let ?args = "\<lparr>after_year_only = Some 2020, no_print_stats = False, no_show_legend = False,
       legend_title = ''Techniques'', title = None, xlabel = ''Year'',
       ylabel = ''Number of Papers''\<rparr>"
  let ?csv = "[\<lparr>Year = 2019, Image_Processing = 1, Machine_Learning = 0, Deep_Learning = 0\<rparr>,
       \<lparr>Year = 2020, Image_Processing = 0, Machine_Learning = 1, Deep_Learning = (1::int64)\<rparr>]"
  have fd: "format_df ?csv = [(2019, \<lparr>image_processing = 1, machine_learning = 0, deep_learning = 0\<rparr>),
                       (2020, \<lparr>image_processing = 0, machine_learning = 1, deep_learning = 1\<rparr>)]"
    by (simp add: format_df_def groupby_sum_def techs_of_def add_techs_def)
  have pv: "percent image_processing
              [(2020::int, \<lparr>image_processing = 0, machine_learning = 1, deep_learning = (1::int64)\<rparr>)] = Fin 0"
    "percent machine_learning
              [(2020::int, \<lparr>image_processing = 0, machine_learning = 1, deep_learning = (1::int64)\<rparr>)] = Fin 50"
    "percent deep_learning
              [(2020::int, \<lparr>image_processing = 0, machine_learning = 1, deep_learning = (1::int64)\<rparr>)] = Fin 50"
    by (simp_all add: stats_eval float_eval)
  have a: "?csv \<noteq> []" "after_year_only ?args = Some 2020" "\<not> no_print_stats ?args" by simp_all
  from year_filter_restricts_stats_only [OF a] obtain chart s
    where m: "main_techniques ?args ?csv = Inr (chart, Some s)"
      and c: "fst ` set (chart_data chart) = Year ` set ?csv"
      and p: "percent_ip s = percent image_processing (filter (\<lambda>(k, r). 2020 \<le> k) (format_df ?csv))"
         "percent_ml s = percent machine_learning (filter (\<lambda>(k, r). 2020 \<le> k) (format_df ?csv))"
         "percent_dl s = percent deep_learning (filter (\<lambda>(k, r). 2020 \<le> k) (format_df ?csv))"
    by blast
  have c': "fst ` set (chart_data chart) = {2019, 2020}" using c by simp
  have p': "percent_ip s = Fin 0" "percent_ml s = Fin 50" "percent_dl s = Fin 50"
    using p by (simp_all add: fd pv)
  have e: "main_techniques ?args [] = Inl NoNumericDataToPlot"
    by (simp add: main_techniques_def generate_stacked_barchart_def format_df_def groupby_sum_def)
  from m c' p' e show ?thesis by blast
qed

section \<open>Properties of heatmap.py\<close>


lemma get_outer_edges_bounds:
  assumes "get_outer_edges a = (lo, hi)"
  shows "lo < hi \<and> (\<forall>v \<in> set a. lo \<le> v \<and> v \<le> hi)"
proof (cases "a = []")
  case True
  then show ?thesis using assms by (simp add: get_outer_edges_def)
next
  case False
  then have ne: "set a \<noteq> {}" and fin: "finite (set a)" by simp_all
  have mm: "Min (set a) \<le> Max (set a)" using ne fin by simp
  have b: "\<forall>v \<in> set a. Min (set a) \<le> v \<and> v \<le> Max (set a)" using fin by simp
  show ?thesis
  proof (cases "Min (set a) = Max (set a)")
    case True
    then have "lo = Min (set a) - 1 / 2" "hi = Max (set a) + 1 / 2"
      using assms False by (simp_all add: get_outer_edges_def)
    then show ?thesis using b True by fastforce
  next
    case neq: False
    then have "lo = Min (set a)" "hi = Max (set a)"
      using assms False by (simp_all add: get_outer_edges_def)
    then show ?thesis using b mm neq by auto
  qed
qed

lemma linspace_length: "length (linspace lo hi num) = num"
  by (simp add: linspace_def)

lemma linspace_hd: "0 < num \<Longrightarrow> hd (linspace lo hi num) = lo"
  by (simp add: linspace_def hd_map upt_conv_Cons)

lemma linspace_last: "1 < num \<Longrightarrow> last (linspace lo hi num) = hi"
proof -
  assume n: "1 < num"
  then have ne: "[0..<num] \<noteq> []" by simp
  have l: "last [0..<num] = num - 1" using n by (simp add: last_upt)
  show ?thesis using n by (simp add: linspace_def last_map [OF ne] l)
qed

lemma linspace_le_stop:
  assumes "lo \<le> hi" "e \<in> set (linspace lo hi num)"
  shows "e \<le> hi"
proof -
  from assms(2) obtain i where i: "i < num" and e: "e = lo + real i * ((hi - lo) / real (num - 1))"
    by (auto simp: linspace_def)
  have "real i \<le> real (num - 1)" using i by simp
  moreover have "0 < real (num - 1) \<or> num - 1 = 0" by auto
  ultimately have "real i * ((hi - lo) / real (num - 1)) \<le> hi - lo"
  proof -
    have z: "0 \<le> hi - lo" using assms(1) by simp
    show ?thesis
    proof (cases "num - 1 = 0")
      case True
      then show ?thesis using z by simp
    next
      case False
      then have p: "0 < real (num - 1)" by simp
      have "real i * ((hi - lo) / real (num - 1)) = (real i / real (num - 1)) * (hi - lo)" by simp
      also have "\<dots> \<le> 1 * (hi - lo)"
      proof (rule mult_right_mono)
        show "real i / real (num - 1) \<le> 1" using p \<open>real i \<le> real (num - 1)\<close> by simp
        show "0 \<le> hi - lo" by (rule z)
      qed
      finally show ?thesis by simp
    qed
  qed
  then show ?thesis using e by simp
qed

lemma bin_number_in_range:
  assumes edges: "edges = linspace lo hi (n + 1)" and n: "1 \<le> n" and lh: "lo < hi"
    and v: "lo \<le> v" "v \<le> hi"
  shows "1 \<le> bin_number edges v \<and> bin_number edges v \<le> n"
proof -
  have len: "length edges = n + 1" by (simp add: edges linspace_length)
  have ne: "edges \<noteq> []" using len by auto
  have hd: "hd edges = lo" by (simp add: edges linspace_hd)
  have last: "last edges = hi" using n by (simp add: edges linspace_last)
  have all_le: "\<forall>e \<in> set edges. e \<le> hi"
    using lh linspace_le_stop [of lo hi _ "n + 1"] by (auto simp: edges)
  show ?thesis
  proof (cases "v = hi")
    case True
    have tw: "takeWhile (\<lambda>e. e \<le> v) edges = edges"
      using all_le True by (simp add: takeWhile_eq_all_conv)
    have "searchsorted_right edges v = length edges"
      unfolding searchsorted_right_def tw by (rule refl)
    then have "searchsorted_right edges v = n + 1" using len by simp
    then show ?thesis using True last n by (simp add: bin_number_def)
  next
    case False
    then have lt: "v < hi" using v by simp
    obtain e es where es: "edges = e # es" using ne by (cases edges) auto
    have "e = lo" using hd es by simp
    then have ge: "1 \<le> searchsorted_right edges v"
      using v by (simp add: searchsorted_right_def es)
    have "takeWhile (\<lambda>e. e \<le> v) edges \<noteq> edges"
    proof
      assume "takeWhile (\<lambda>e. e \<le> v) edges = edges"
      then have "\<forall>e \<in> set edges. e \<le> v" by (simp add: takeWhile_eq_all_conv)
      moreover have "last edges \<in> set edges" using ne by simp
      ultimately show False using last lt by auto
    qed
    then have "length (takeWhile (\<lambda>e. e \<le> v) edges) \<noteq> length edges"
      by (metis takeWhile_eq_take take_all_iff le_refl)
    moreover have "length (takeWhile (\<lambda>e. e \<le> v) edges) \<le> length edges"
      by (rule length_takeWhile_le)
    ultimately have "searchsorted_right edges v \<le> n"
      by (simp add: searchsorted_right_def len)
    then show ?thesis using ge False last by (simp add: bin_number_def)
  qed
qed

lemma indicator_row_sum:
  "sum_list (map (\<lambda>j. if b = j + 1 then 1 else 0) [0..<m]) = (if 1 \<le> b \<and> b \<le> m then 1 else (0::nat))"
proof (induction m)
  case 0
  show ?case by simp
next
  case (Suc m)
  then show ?case by auto
qed

lemma indicator_grid_sum:
  "sum_list (map (\<lambda>i. sum_list (map (\<lambda>j. if (a, b) = (i + 1, j + 1) then 1 else 0) [0..<m])) [0..<n])
     = (if 1 \<le> a \<and> a \<le> n \<and> 1 \<le> b \<and> b \<le> m then 1 else (0::nat))"
proof (induction n)
  case 0
  show ?case by simp
next
  case (Suc n)
  have row: "sum_list (map (\<lambda>j. if (a, b) = (Suc n, j + 1) then 1 else 0) [0..<m])
               = (if a = Suc n \<and> 1 \<le> b \<and> b \<le> m then 1 else (0::nat))"
  proof (cases "a = Suc n")
    case True
    then show ?thesis using indicator_row_sum [of b m] by simp
  next
    case False
    then show ?thesis by simp
  qed
  show ?case using Suc row by auto
qed

lemma count_list_Cons_indicator:
  "count_list (p # ps) x = (if p = x then 1 else 0) + count_list ps x"
  by simp

lemma grid_count_sum:
  "sum_list (map (\<lambda>i. sum_list (map (\<lambda>j. count_list ps (i + 1, j + 1)) [0..<m])) [0..<n])
     = length (filter (\<lambda>(a, b). 1 \<le> a \<and> a \<le> n \<and> 1 \<le> b \<and> b \<le> m) ps)"
proof (induction ps)
  case Nil
  show ?case by simp
next
  case (Cons p ps)
  obtain a b where p: "p = (a, b)" by (cases p)
  have "sum_list (map (\<lambda>i. sum_list (map (\<lambda>j. count_list (p # ps) (i + 1, j + 1)) [0..<m])) [0..<n])
      = sum_list (map (\<lambda>i. sum_list (map (\<lambda>j. if (a, b) = (i + 1, j + 1) then 1 else 0) [0..<m])) [0..<n])
        + sum_list (map (\<lambda>i. sum_list (map (\<lambda>j. count_list ps (i + 1, j + 1)) [0..<m])) [0..<n])"
    unfolding count_list_Cons_indicator p by (simp add: sum_list_addf)
  then show ?case
    unfolding indicator_grid_sum Cons.IH by (simp add: p)
qed

lemma bin_numbers_point_bins:
  "bin_numbers (map snd df) (map fst df) nbins = map (point_bins df nbins) df"
  by (simp add: bin_numbers_def point_bins_def zip_map_map zip_same_conv_map case_prod_beta)

lemma bin_number_edges_in_range:
  assumes "1 \<le> n" and "v \<in> set a"
  shows "1 \<le> bin_number (bin_edges n a) v \<and> int (bin_number (bin_edges n a) v) \<le> n"
proof -
  obtain lo hi where oe: "get_outer_edges a = (lo, hi)" by (cases "get_outer_edges a")
  from get_outer_edges_bounds [OF oe] assms(2) have lh: "lo < hi" and v: "lo \<le> v" "v \<le> hi"
    by auto
  have e: "bin_edges n a = linspace lo hi (nat n + 1)" by (simp add: bin_edges_def oe)
  have n: "1 \<le> nat n" using assms(1) by simp
  from bin_number_in_range [OF e n lh v] show ?thesis using assms(1) by linarith
qed

lemma point_bins_in_range:
  assumes "1 \<le> fst nbins" "1 \<le> snd nbins" "p \<in> set df"
  shows "in_bin_range nbins (point_bins df nbins p)"
proof -
  have a: "snd p \<in> set (map snd df)" and b: "fst p \<in> set (map fst df)"
    using assms(3) by simp_all
  show ?thesis
    using bin_number_edges_in_range [OF assms(1) a] bin_number_edges_in_range [OF assms(2) b]
    by (simp add: in_bin_range_def point_bins_def)
qed

lemma raw_heatmap_nonempty:
  assumes "df \<noteq> []"
  shows "raw_heatmap df args = histogram2d (map snd df) (map fst df) (bins args)"
  using assms by (cases df) (simp_all add: raw_heatmap_def unzip_coords_def)

lemma raw_heatmap_Inr:
  assumes "raw_heatmap df args = Inr heatmap"
  shows "df \<noteq> [] \<and> 1 \<le> fst (bins args) \<and> 1 \<le> snd (bins args) \<and>
         heatmap = map (\<lambda>i. map (\<lambda>j. count_list (map (point_bins df (bins args)) df) (i + 1, j + 1))
                                  [0..<nat (snd (bins args))])
                       [0..<nat (fst (bins args))]"
proof -
  have ne: "df \<noteq> []" using assms by (auto simp: raw_heatmap_def unzip_coords_def)
  from assms have h: "histogram2d (map snd df) (map fst df) (bins args) = Inr heatmap"
    by (simp add: raw_heatmap_nonempty [OF ne])
  then show ?thesis using ne
    by (auto simp: histogram2d_def bin_numbers_point_bins split: if_splits)
qed

lemma raw_heatmap_valid_bins:
  assumes "df \<noteq> []" "1 \<le> fst (bins args)" "1 \<le> snd (bins args)"
  shows "raw_heatmap df args
           = Inr (map (\<lambda>i. map (\<lambda>j. count_list (map (point_bins df (bins args)) df) (i + 1, j + 1))
                                  [0..<nat (snd (bins args))])
                       [0..<nat (fst (bins args))])"
  using assms by (simp add: raw_heatmap_nonempty histogram2d_def bin_numbers_point_bins)

lemma in_bin_range_nat:
  "1 \<le> fst nbins \<Longrightarrow> 1 \<le> snd nbins \<Longrightarrow>
   in_bin_range nbins (a, b) = (1 \<le> a \<and> a \<le> nat (fst nbins) \<and> 1 \<le> b \<and> b \<le> nat (snd nbins))"
  by (auto simp: in_bin_range_def)

text \<open>
  Claim C3. For every non-empty list of input coordinates (and bin counts of at least one,
  without which NumPy builds no histogram), the binning returns a histogram, and the sum
  of its raw cell counts is the number of input rows whose bin numbers are in the bin
  range. No row is outside it, since the range of each axis is the minimum and maximum of
  the data, so the sum is the number of input rows.
\<close>

theorem histogram_sum_is_row_count:
  assumes "df \<noteq> []" and "1 \<le> fst (bins args)" and "1 \<le> snd (bins args)"
  shows "\<exists>heatmap. raw_heatmap df args = Inr heatmap \<and>
           sum_cells heatmap
             = length (filter (\<lambda>p. in_bin_range (bins args) (point_bins df (bins args) p)) df) \<and>
           filter (\<lambda>p. \<not> in_bin_range (bins args) (point_bins df (bins args) p)) df = [] \<and>
           sum_cells heatmap = length df"
proof -
  let ?pb = "point_bins df (bins args)"
  let ?h = "map (\<lambda>i. map (\<lambda>j. count_list (map ?pb df) (i + 1, j + 1))
                           [0..<nat (snd (bins args))])
                [0..<nat (fst (bins args))]"
  have r: "raw_heatmap df args = Inr ?h" using assms by (rule raw_heatmap_valid_bins)
  have "sum_cells ?h
          = length (filter (\<lambda>(a, b). 1 \<le> a \<and> a \<le> nat (fst (bins args)) \<and>
                                     1 \<le> b \<and> b \<le> nat (snd (bins args))) (map ?pb df))"
    unfolding sum_cells_def using grid_count_sum [of "map ?pb df" "nat (snd (bins args))" "nat (fst (bins args))"]
    by (simp add: comp_def)
  also have "\<dots> = length (filter (in_bin_range (bins args)) (map ?pb df))"
  proof -
    have "(\<lambda>(a, b). 1 \<le> a \<and> a \<le> nat (fst (bins args)) \<and> 1 \<le> b \<and> b \<le> nat (snd (bins args)))
            = in_bin_range (bins args)"
      using in_bin_range_nat [OF assms(2,3)] by auto
    then show ?thesis by simp
  qed
  also have "\<dots> = length (filter (\<lambda>p. in_bin_range (bins args) (?pb p)) df)"
    by (simp add: filter_map comp_def)
  finally have s: "sum_cells ?h = length (filter (\<lambda>p. in_bin_range (bins args) (?pb p)) df)" .
  have all: "\<forall>p \<in> set df. in_bin_range (bins args) (?pb p)"
    using point_bins_in_range [OF assms(2,3)] by blast
  then have none: "filter (\<lambda>p. \<not> in_bin_range (bins args) (?pb p)) df = []"
    by (simp add: filter_empty_conv)
  have full: "filter (\<lambda>p. in_bin_range (bins args) (?pb p)) df = df"
    using all by (simp add: filter_id_conv)
  show ?thesis using r s none full by simp
qed

text \<open>The statement at three points and two bins on each axis.\<close>

theorem histogram_sum_is_row_count_witness:
  "raw_heatmap [(0, 0), (0, 85), (10, 85)]
      \<lparr>bins = (2, 2), smoothing = 13 / 10, mode = ''nearest'', cmap = ''jet'', crs = ''epsg:4326''\<rparr>
     = Inr [[1, 0], [1, 1]] \<and>
   sum_cells [[1, 0], [1, 1]] = length [(0::real, 0::real), (0, 85), (10, 85)]"
proof -
  let ?df = "[(0::real, 0::real), (0, 85), (10, 85)]"
  let ?args = "\<lparr>bins = (2, 2), smoothing = 13 / 10, mode = ''nearest'', cmap = ''jet'', crs = ''epsg:4326''\<rparr>"
  have e: "raw_heatmap ?df ?args = Inr [[1, 0], [1, 1]]" by code_simp
  have "?df \<noteq> []" "1 \<le> fst (bins ?args)" "1 \<le> snd (bins ?args)" by simp_all
  from histogram_sum_is_row_count [OF this] obtain heatmap
    where "raw_heatmap ?df ?args = Inr heatmap" "sum_cells heatmap = length ?df" by blast
  with e show ?thesis by simp
qed

text \<open>
  Claim C2 says that the binning drops the points outside the coordinate extent of the
  basemap. \<^verbatim>\<open>generate_heatmap\<close> never sees the basemap: \<^verbatim>\<open>np.histogram2d\<close> is called without
  a \<^verbatim>\<open>range\<close>, and the extent is used by \<^verbatim>\<open>imshow\<close> alone. With the bounds of the default
  basemap, whose northern edge is at latitude 83.64513, the point at latitude 85 is
  outside the extent and is counted all the same: the cells sum to 2, and one point only
  is inside.
\<close>

theorem basemap_extent_counterexample:
  "\<not> inside_extent (-180, -90, 180, 8364513 / 100000) (0, 85) \<and>
   raw_heatmap [(0, 0), (0, 85)]
      \<lparr>bins = (2, 2), smoothing = 13 / 10, mode = ''nearest'', cmap = ''jet'', crs = ''epsg:4326''\<rparr>
     = Inr [[0, 1], [0, 1]] \<and>
   sum_cells [[0, 1], [0, 1]] = 2 \<and>
   length (filter (inside_extent (-180, -90, 180, 8364513 / 100000)) [(0, 0), (0, 85)]) = 1"
proof -
  have a: "\<not> inside_extent (-180, -90, 180, 8364513 / 100000) (0, 85)"
    by (simp add: inside_extent_def)
  have b: "raw_heatmap [(0, 0), (0, 85)]
      \<lparr>bins = (2, 2), smoothing = 13 / 10, mode = ''nearest'', cmap = ''jet'', crs = ''epsg:4326''\<rparr>
     = Inr [[0, 1], [0, 1]]" by code_simp
  have c: "sum_cells [[0, 1], [0, 1]] = 2" by (simp add: sum_cells_def)
  have d: "length (filter (inside_extent (-180, -90, 180, 8364513 / 100000)) [(0, 0), (0, 85)]) = 1"
    by (simp add: inside_extent_def)
  from a b c d show ?thesis by blast
qed

lemma linspace_edges:
  assumes "1 \<le> n" "get_outer_edges a = (lo, hi)"
  shows "hd (bin_edges n a) = lo \<and> last (bin_edges n a) = hi"
proof -
  have e: "bin_edges n a = linspace lo hi (nat n + 1)" by (simp add: bin_edges_def assms(2))
  have "1 < nat n + 1" using assms(1) by simp
  then show ?thesis unfolding e by (simp add: linspace_hd linspace_last)
qed

lemma bin_edges_span:
  assumes "1 \<le> n" "v \<in> set a"
  shows "hd (bin_edges n a) \<le> v \<and> v \<le> last (bin_edges n a)"
proof -
  obtain lo hi where oe: "get_outer_edges a = (lo, hi)" by (cases "get_outer_edges a")
  from linspace_edges [OF assms(1) oe] get_outer_edges_bounds [OF oe] assms(2)
  show ?thesis by auto
qed

lemma raw_heatmap_total:
  assumes "raw_heatmap df args = Inr heatmap"
  shows "sum_cells heatmap = length df"
proof -
  note R = raw_heatmap_Inr [OF assms]
  from R have b0: "1 \<le> fst (bins args)" and b1: "1 \<le> snd (bins args)" by simp_all
  let ?pb = "point_bins df (bins args)"
  have h: "heatmap = map (\<lambda>i. map (\<lambda>j. count_list (map ?pb df) (i + 1, j + 1))
                                  [0..<nat (snd (bins args))])
                       [0..<nat (fst (bins args))]"
    using R by simp
  have "sum_cells heatmap
          = length (filter (\<lambda>(a, b). 1 \<le> a \<and> a \<le> nat (fst (bins args)) \<and>
                                     1 \<le> b \<and> b \<le> nat (snd (bins args))) (map ?pb df))"
    unfolding sum_cells_def h
    using grid_count_sum [of "map ?pb df" "nat (snd (bins args))" "nat (fst (bins args))"]
    by (simp add: comp_def)
  also have "\<dots> = length (map ?pb df)"
  proof -
    have "\<forall>x \<in> set (map ?pb df). (\<lambda>(a, b). 1 \<le> a \<and> a \<le> nat (fst (bins args)) \<and>
                                     1 \<le> b \<and> b \<le> nat (snd (bins args))) x"
    proof
      fix x assume "x \<in> set (map ?pb df)"
      then obtain p where p: "p \<in> set df" and x: "x = ?pb p" by auto
      obtain a b where ab: "?pb p = (a, b)" by (cases "?pb p")
      from point_bins_in_range [OF b0 b1 p] show "(\<lambda>(a, b). 1 \<le> a \<and> a \<le> nat (fst (bins args)) \<and>
                                     1 \<le> b \<and> b \<le> nat (snd (bins args))) x"
        using in_bin_range_nat [OF b0 b1, of a b] by (simp add: x ab)
    qed
    then show ?thesis by (simp only: filter_True)
  qed
  finally show ?thesis by simp
qed

text \<open>
  Claim C2, amended. When binning the coordinates, the script does not consult the extent
  of the basemap and drops no point: whenever a histogram is returned, the bin edges of
  each axis, which are computed from the data alone, run from a first edge at or below
  every input value to a last edge at or above it, every input point has bin numbers
  inside the bin range, and the cell counts add up to the number of input points inside
  the extent plus the number of those outside it, whatever the extent is.
\<close>

theorem binning_drops_no_point:
  assumes "raw_heatmap df args = Inr heatmap"
  shows "(\<forall>p \<in> set df.
            hd (bin_edges (fst (bins args)) (map snd df)) \<le> snd p \<and>
            snd p \<le> last (bin_edges (fst (bins args)) (map snd df)) \<and>
            hd (bin_edges (snd (bins args)) (map fst df)) \<le> fst p \<and>
            fst p \<le> last (bin_edges (snd (bins args)) (map fst df)) \<and>
            in_bin_range (bins args) (point_bins df (bins args) p)) \<and>
         sum_cells heatmap
           = length (filter (inside_extent total_bounds) df)
             + length (filter (\<lambda>p. \<not> inside_extent total_bounds p) df)"
proof -
  note R = raw_heatmap_Inr [OF assms]
  from R have b0: "1 \<le> fst (bins args)" and b1: "1 \<le> snd (bins args)" by simp_all
  have pt: "hd (bin_edges (fst (bins args)) (map snd df)) \<le> snd p \<and>
            snd p \<le> last (bin_edges (fst (bins args)) (map snd df)) \<and>
            hd (bin_edges (snd (bins args)) (map fst df)) \<le> fst p \<and>
            fst p \<le> last (bin_edges (snd (bins args)) (map fst df)) \<and>
            in_bin_range (bins args) (point_bins df (bins args) p)"
    if p: "p \<in> set df" for p
  proof -
    have a: "snd p \<in> set (map snd df)" and b: "fst p \<in> set (map fst df)" using p by simp_all
    from bin_edges_span [OF b0 a] bin_edges_span [OF b1 b] point_bins_in_range [OF b0 b1 p]
    show ?thesis by simp
  qed
  have "sum_cells heatmap = length df" using assms by (rule raw_heatmap_total)
  also have "\<dots> = length (filter (inside_extent total_bounds) df)
                    + length (filter (\<lambda>p. \<not> inside_extent total_bounds p) df)"
    by (simp add: sum_length_filter_compl)
  finally show ?thesis using pt by blast
qed

text \<open>The statement at the point of latitude 85, outside the extent of the basemap.\<close>

theorem binning_drops_no_point_witness:
  "raw_heatmap [(0, 0), (0, 85)]
      \<lparr>bins = (2, 2), smoothing = 13 / 10, mode = ''nearest'', cmap = ''jet'', crs = ''epsg:4326''\<rparr>
     = Inr [[0, 1], [0, 1]] \<and>
   sum_cells [[0, 1], [0, 1]]
     = length (filter (inside_extent (-180, -90, 180, 8364513 / 100000)) [(0, 0), (0, 85)])
       + length (filter (\<lambda>p. \<not> inside_extent (-180, -90, 180, 8364513 / 100000) p) [(0, 0), (0, 85)]) \<and>
   filter (\<lambda>p. \<not> inside_extent (-180, -90, 180, 8364513 / 100000) p) [(0, 0), (0, 85)] = [(0, 85)] \<and>
   in_bin_range (2, 2) (point_bins [(0, 0), (0, 85)] (2, 2) (0, 85))"
proof -
  let ?df = "[(0::real, 0::real), (0, 85)]"
  let ?args = "\<lparr>bins = (2, 2), smoothing = 13 / 10, mode = ''nearest'', cmap = ''jet'', crs = ''epsg:4326''\<rparr>"
  have e: "raw_heatmap ?df ?args = Inr [[0, 1], [0, 1]]" by code_simp
  have o: "filter (\<lambda>p. \<not> inside_extent (-180, -90, 180, 8364513 / 100000) p) ?df = [(0, 85)]"
    by (simp add: inside_extent_def)
  have m: "(0, 85) \<in> set ?df" by simp
  from binning_drops_no_point [OF e, of "(-180, -90, 180, 8364513 / 100000)"] m
  have "sum_cells [[0, 1], [0, 1]]
     = length (filter (inside_extent (-180, -90, 180, 8364513 / 100000)) ?df)
       + length (filter (\<lambda>p. \<not> inside_extent (-180, -90, 180, 8364513 / 100000) p) ?df)"
    and "in_bin_range (2, 2) (point_bins ?df (2, 2) (0, 85))"
    by auto
  with e o show ?thesis by blast
qed

lemma log_transform_nth:
  assumes "i < length heatmap" "j < length (heatmap ! i)"
  shows "log_transform heatmap ! i ! j
           = (if heatmap ! i ! j = 0 then Fin 0 else Fin (ln (real (heatmap ! i ! j))))"
  using assms by (simp add: log_transform_def np_log_def isneginf_def)

lemma log_transform_finite:
  assumes "row \<in> set (log_transform heatmap)" "v \<in> set row"
  shows "\<exists>r. v = Fin r"
  using assms by (auto simp: log_transform_def np_log_def isneginf_def)

text \<open>
  Claim C4. The grid that \<^verbatim>\<open>generate_heatmap\<close> passes to the Gaussian filter is the log
  transform of the raw histogram. In it every cell of count 0 holds 0, every cell of
  positive count holds the natural logarithm of the count, and no cell holds \<^verbatim>\<open>-inf\<close>.
\<close>

theorem log_transform_feeds_no_neginf:
  assumes "raw_heatmap df args = Inr heatmap"
  shows "generate_heatmap df args
           = gaussian_filter (log_transform heatmap) (smoothing args) (mode args) \<and>
         (\<forall>row \<in> set (log_transform heatmap). NInf \<notin> set row) \<and>
         (\<forall>i < length heatmap. \<forall>j < length (heatmap ! i).
            (heatmap ! i ! j = 0 \<longrightarrow> log_transform heatmap ! i ! j = Fin 0) \<and>
            (0 < heatmap ! i ! j \<longrightarrow> log_transform heatmap ! i ! j = Fin (ln (real (heatmap ! i ! j)))))"
proof -
  have g: "generate_heatmap df args
             = gaussian_filter (log_transform heatmap) (smoothing args) (mode args)"
    using assms by (simp add: generate_heatmap_def smooth_def)
  have n: "\<forall>row \<in> set (log_transform heatmap). NInf \<notin> set row"
    using log_transform_finite [of _ heatmap] by blast
  have c: "\<forall>i < length heatmap. \<forall>j < length (heatmap ! i).
            (heatmap ! i ! j = 0 \<longrightarrow> log_transform heatmap ! i ! j = Fin 0) \<and>
            (0 < heatmap ! i ! j \<longrightarrow> log_transform heatmap ! i ! j = Fin (ln (real (heatmap ! i ! j))))"
    using log_transform_nth [of _ heatmap] by simp
  from g n c show ?thesis by blast
qed

text \<open>The statement at a histogram with an empty cell, and the transform of a count of 3.\<close>

theorem log_transform_feeds_no_neginf_witness:
  "raw_heatmap [(0, 0), (0, 85), (10, 85)]
      \<lparr>bins = (2, 2), smoothing = 13 / 10, mode = ''nearest'', cmap = ''jet'', crs = ''epsg:4326''\<rparr>
     = Inr [[1, 0], [1, 1]] \<and>
   log_transform [[1, 0], [1, 1]] = [[Fin 0, Fin 0], [Fin 0, Fin 0]] \<and>
   log_transform [[0, 3]] = [[Fin 0, Fin (ln 3)]] \<and>
   generate_heatmap [(0, 0), (0, 85), (10, 85)]
      \<lparr>bins = (2, 2), smoothing = 13 / 10, mode = ''nearest'', cmap = ''jet'', crs = ''epsg:4326''\<rparr>
     = gaussian_filter [[Fin 0, Fin 0], [Fin 0, Fin 0]] (13 / 10) ''nearest''"
proof -
  let ?df = "[(0::real, 0::real), (0, 85), (10, 85)]"
  let ?args = "\<lparr>bins = (2, 2), smoothing = 13 / 10, mode = ''nearest'', cmap = ''jet'', crs = ''epsg:4326''\<rparr>"
  have e: "raw_heatmap ?df ?args = Inr [[1, 0], [1, 1]]" by code_simp
  have l: "log_transform [[1, 0], [1, 1]] = [[Fin 0, Fin 0], [Fin 0, Fin 0]]"
    by (simp add: log_transform_def np_log_def isneginf_def)
  have l3: "log_transform [[0, 3]] = [[Fin 0, Fin (ln 3)]]"
    by (simp add: log_transform_def np_log_def isneginf_def)
  from log_transform_feeds_no_neginf [OF e] e l l3 show ?thesis by simp
qed

text \<open>
  Claim C8. For an input without rows the heatmap generation fails with an error, and it
  fails in the binning step (lines 184-186): the \<^verbatim>\<open>ValueError\<close> is raised on line 185,
  where the coordinates are unpacked for \<^verbatim>\<open>np.histogram2d\<close>; the log transform and the
  filter are not reached.
\<close>

theorem empty_input_fails_in_binning:
  "raw_heatmap [] args = Inl NotEnoughValuesToUnpack \<and>
   generate_heatmap [] args = Inl NotEnoughValuesToUnpack \<and>
   main_heatmap args [] total_bounds = Inl NotEnoughValuesToUnpack"
  by (simp add: raw_heatmap_def unzip_coords_def generate_heatmap_def main_heatmap_def
        pandas_to_geopandas_def)


end
